theory Spec2Isabelle
  imports Complex_Main "HOL-Library.Multiset"
begin

section \<open>Data model of the fraud-pattern detector\<close>

text \<open>
  The detector is the module that exports \<open>analyzeTransactions\<close>. Its numbers are
  JavaScript numbers; they are modelled as rationals, so arithmetic is exact and the
  inputs hold no NaN, no infinity and no negative zero. Where the code itself produces
  \<open>undefined\<close>, NaN or an infinity from such inputs (an out-of-range array read, a
  division by zero) the model says so with \<open>option\<close> or \<open>jsnum\<close>.
  Strings are lists of 8-bit characters, read as the code points U+0000 to U+00FF.
\<close>

record transaction =
  department :: string
  vendor :: string
  amount :: rat
  date :: string
  description :: "string option"

datatype severity_level = Critical | High | Medium | Low

datatype anomaly_type =
    BenfordsLaw | DuplicatePayments | ThresholdAvoidance | RoundNumbers
  | WeekendPayments | SameDayPayments | VendorNameFlag | HighFrequency
  | LargeOutlier | VendorConcentration

text \<open>A number the code computes by a division: finite, or what IEEE division by
  zero gives.\<close>

datatype jsnum = Fin rat | PosInf | NegInf | NaN

definition jsDiv :: "rat \<Rightarrow> rat \<Rightarrow> jsnum" where
  "jsDiv a b =
     (if b = 0 then (if a = 0 then NaN else if 0 < a then PosInf else NegInf)
      else Fin (a / b))"

definition jsTimes :: "jsnum \<Rightarrow> rat \<Rightarrow> jsnum" where
  \<comment> \<open>multiplication by a positive constant\<close>
  "jsTimes x c = (case x of Fin r \<Rightarrow> Fin (r * c) | y \<Rightarrow> y)"

definition jsGreater :: "jsnum \<Rightarrow> rat \<Rightarrow> bool" where
  \<comment> \<open>\<open>x > c\<close>: false for NaN\<close>
  "jsGreater x c = (case x of Fin r \<Rightarrow> c < r | PosInf \<Rightarrow> True | NegInf \<Rightarrow> False | NaN \<Rightarrow> False)"

definition jsRound :: "jsnum \<Rightarrow> jsnum" where
  \<comment> \<open>\<open>Math.round\<close>: the integer nearest, ties upward\<close>
  "jsRound x = (case x of Fin r \<Rightarrow> Fin (of_int \<lfloor>r + 1 / 2\<rfloor>) | y \<Rightarrow> y)"

record deviation_entry =
  digit :: nat
  expected :: rat
  actual :: rat
  deviation :: rat

text \<open>
  The \<open>details\<close> of an anomaly are template strings. The lines that report what a
  check measured (the sample size and the digit deviations, the threshold and its
  window, the pattern matched, the shares, the median, the top vendors) are kept as
  constructors holding the interpolated values. The lines that only repeat a field of
  the anomaly or of the transaction through \<open>formatCurrency\<close>, the time span of the
  duplicate-payment check and the multiples of the high-frequency check (renderings of
  \<open>Date\<close> arithmetic and of \<open>Math.round\<close>), and the constant texts (\<open>title\<close>,
  \<open>description\<close>, \<open>investigationTips\<close>) are left out: no branch of the code reads
  them and none of them can throw.
\<close>

datatype detail =
    SampleSize nat
  | DigitDeviation deviation_entry
  | IdenticalAmount rat
  | Departments "string list"
  | ThresholdAvoided rat
  | AmountRange rat rat
  | SampleAmounts "rat list"
  | RoundShare nat nat
  | PatternName string
  | WeekendShare nat nat
  | DateOf string
  | IndividualAmounts "rat list"
  | PrimaryDepartment string
  | AverageCount jsnum
  | DepartmentsInvolved nat
  | MedianPayment rat
  | Multiplier jsnum
  | TotalSpending rat
  | TopVendors "(string \<times> rat \<times> jsnum) list"

record anomaly =
  aId :: nat
  aType :: anomaly_type
  severity :: severity_level
  aVendor :: "string option"
  aDepartment :: "string option"
  aAmount :: "rat option"
  aCount :: "nat option"
  details :: "detail list"

record detection_stats =
  totalAnomalies :: nat
  criticalCount :: nat
  highCount :: nat
  mediumCount :: nat
  lowCount :: nat
  totalFlaggedAmount :: rat

record detection_result =
  anomalies :: "anomaly list"
  stats :: detection_stats

datatype error = TypeError

section \<open>Plain objects used as dictionaries\<close>

text \<open>
  The grouping loops use an object literal \<open>{}\<close> as a dictionary. Such an object
  inherits from \<open>Object.prototype\<close>: reading a key it does not own gives the inherited
  member when the key is one of the names below, and \<open>undefined\<close> otherwise. The
  own properties are kept in creation order.
\<close>

definition protoKeys :: "string list" where
  "protoKeys =
     [''constructor'', ''__proto__'', ''__defineGetter__'', ''__defineSetter__'',
      ''__lookupGetter__'', ''__lookupSetter__'', ''hasOwnProperty'', ''isPrototypeOf'',
      ''propertyIsEnumerable'', ''toLocaleString'', ''toString'', ''valueOf'']"

definition protoKey :: "string \<Rightarrow> bool" where
  "protoKey k = (k \<in> set protoKeys)"

fun setOwn :: "'k \<Rightarrow> 'v \<Rightarrow> ('k \<times> 'v) list \<Rightarrow> ('k \<times> 'v) list" where
  "setOwn k v [] = [(k, v)]"
| "setOwn k v (p # ps) = (if fst p = k then (k, v) # ps else p # setOwn k v ps)"

text \<open>
  The loop \<open>for (const t of ts) { if (!obj[key]) obj[key] = init; update obj[key] with t }\<close>.
  An own value is an array or a record, hence truthy. When the key is inherited and not
  own, \<open>obj[key]\<close> is the inherited function or object: it is truthy, so nothing is
  created, and the update reads a member it does not have (\<open>push\<close> of a function,
  \<open>txns.push\<close> or \<open>departments.add\<close> of \<open>undefined\<close>) and throws a TypeError.
\<close>

fun accum :: "('k \<Rightarrow> bool) \<Rightarrow> (transaction \<Rightarrow> 'k) \<Rightarrow> 'v \<Rightarrow> ('v \<Rightarrow> transaction \<Rightarrow> 'v) \<Rightarrow>
    transaction list \<Rightarrow> ('k \<times> 'v) list \<Rightarrow> error + ('k \<times> 'v) list" where
  "accum inh key init step [] obj = Inr obj"
| "accum inh key init step (t # ts) obj =
     (case map_of obj (key t) of
        Some v \<Rightarrow> accum inh key init step ts (setOwn (key t) (step v t) obj)
      | None \<Rightarrow>
          if inh (key t) then Inl TypeError
          else accum inh key init step ts (obj @ [(key t, step init t)]))"

definition groupBy :: "('k \<Rightarrow> bool) \<Rightarrow> (transaction \<Rightarrow> 'k) \<Rightarrow> transaction list \<Rightarrow>
    error + ('k \<times> transaction list) list" where
  "groupBy inh key ts = accum inh key [] (\<lambda>g t. g @ [t]) ts []"

text \<open>
  \<open>Object.entries\<close> lists the own keys that are array indices (canonical decimal
  numerals below \<open>2^32 - 1 = 4294967295\<close>) first, in ascending numeric order, and then the other
  keys in creation order.
\<close>

definition digitValue :: "char \<Rightarrow> int" where
  "digitValue c =
     (case map_of [(CHR ''0'', 0), (CHR ''1'', 1), (CHR ''2'', 2), (CHR ''3'', 3), (CHR ''4'', 4),
                   (CHR ''5'', 5), (CHR ''6'', 6), (CHR ''7'', 7), (CHR ''8'', 8), (CHR ''9'', 9)] c of
        Some d \<Rightarrow> d | None \<Rightarrow> 0)"

definition isDigit :: "char \<Rightarrow> bool" where
  "isDigit c = (c \<in> set ''0123456789'')"

definition decimalValue :: "string \<Rightarrow> int" where
  "decimalValue s = foldl (\<lambda>n c. 10 * n + digitValue c) 0 s"

definition arrayIndex :: "string \<Rightarrow> int option" where
  "arrayIndex s =
     (if s \<noteq> [] \<and> list_all isDigit s \<and> (s = ''0'' \<or> hd s \<noteq> CHR ''0'')
         \<and> decimalValue s < 4294967295
      then Some (decimalValue s) else None)"

definition indexRank :: "string \<Rightarrow> int" where
  "indexRank s = (case arrayIndex s of Some i \<Rightarrow> i | None \<Rightarrow> 0)"

definition entries :: "(string \<times> 'v) list \<Rightarrow> (string \<times> 'v) list" where
  "entries obj =
     sort_key (\<lambda>p. indexRank (fst p)) (filter (\<lambda>p. arrayIndex (fst p) \<noteq> None) obj)
     @ filter (\<lambda>p. arrayIndex (fst p) = None) obj"

section \<open>Helpers shared by the detection methods\<close>

text \<open>\<open>anomalies.push({id: `anomaly-${id++}`, ...})\<close> for each anomaly of a list in
  turn: the anomalies get consecutive numbers and the counter is returned.\<close>

fun pushAll :: "anomaly list \<Rightarrow> nat \<Rightarrow> anomaly list \<times> nat" where
  "pushAll [] i = ([], i)"
| "pushAll (a # as) i = (case pushAll as (Suc i) of (bs, n) \<Rightarrow> (a\<lparr>aId := i\<rparr> # bs, n))"

definition sumAmounts :: "transaction list \<Rightarrow> rat" where
  \<comment> \<open>\<open>txns.reduce((sum, t) => sum + t.amount, 0)\<close>\<close>
  "sumAmounts ts = foldl (\<lambda>s t. s + amount t) 0 ts"

definition uniq :: "'a list \<Rightarrow> 'a list" where
  \<comment> \<open>\<open>[...new Set(xs)]\<close>: the distinct elements, in order of first occurrence\<close>
  "uniq xs = rev (remdups (rev xs))"

definition splitFirst :: "char \<Rightarrow> string \<Rightarrow> string" where
  \<comment> \<open>\<open>s.split(c)[0]\<close>\<close>
  "splitFirst c s = takeWhile (\<lambda>x. x \<noteq> c) s"

section \<open>1. Benford's law\<close>

definition BENFORD_EXPECTED :: "nat \<Rightarrow> rat" where
  "BENFORD_EXPECTED d =
     (if d = 1 then 301 / 1000 else if d = 2 then 176 / 1000 else if d = 3 then 125 / 1000
      else if d = 4 then 97 / 1000 else if d = 5 then 79 / 1000 else if d = 6 then 67 / 1000
      else if d = 7 then 58 / 1000 else if d = 8 then 51 / 1000 else 46 / 1000)"

fun leadingDigit :: "nat \<Rightarrow> nat" where
  "leadingDigit n = (if n < 10 then n else leadingDigit (n div 10))"

declare leadingDigit.simps [simp del]

definition firstDigit :: "rat \<Rightarrow> nat" where
  \<comment> \<open>\<open>parseInt(String(amount)[0])\<close> for an amount of at least 1 (the filter keeps
      amounts of at least 100): the first character of the decimal numeral\<close>
  "firstDigit a = leadingDigit (nat \<lfloor>a\<rfloor>)"

definition digitEntry :: "rat list \<Rightarrow> nat \<Rightarrow> deviation_entry" where
  "digitEntry amounts d =
     (let e = BENFORD_EXPECTED d;
          a = of_nat (length (filter (\<lambda>x. firstDigit x = d) amounts)) / of_nat (length amounts)
      in \<lparr>digit = d, expected = e, actual = a, deviation = \<bar>a - e\<bar>\<rparr>)"

definition benfordDeviations :: "rat list \<Rightarrow> deviation_entry list" where
  "benfordDeviations amounts =
     filter (\<lambda>d. 5 / 100 < deviation d) (map (digitEntry amounts) [1..<10])"

definition analyzeBenfordsLaw :: "transaction list \<Rightarrow> nat \<Rightarrow> anomaly list \<times> nat" where
  "analyzeBenfordsLaw transactions startId =
     (let amounts = map amount (filter (\<lambda>t. 100 \<le> amount t) transactions) in
      if length amounts < 100 then ([], startId)
      else
        let deviations = benfordDeviations amounts in
        if 0 < length deviations then
          let sorted = sort_key (\<lambda>d. - deviation d) deviations;
              sev = (if \<exists>d \<in> set sorted. 1 / 10 < deviation d then High else Medium)
          in pushAll
               [\<lparr>aId = 0, aType = BenfordsLaw, severity = sev, aVendor = None,
                 aDepartment = None, aAmount = None, aCount = None,
                 details = SampleSize (length amounts) # map DigitDeviation (take 3 sorted)\<rparr>]
               startId
        else ([], startId))"

section \<open>2. Duplicate payments\<close>

text \<open>The key \<open>`${t.vendor}|${t.amount}`\<close> determines the pair of the vendor and the
  amount (the numeral holds no bar), and it holds a bar, so it is neither an inherited
  name nor an array index: the groups are keyed by the pair and listed in creation
  order.\<close>

definition duplicateAnomaly :: "(string \<times> rat) \<times> transaction list \<Rightarrow> anomaly list" where
  "duplicateAnomaly e =
     (case e of ((v, a), txns) \<Rightarrow>
        if 3 \<le> length txns \<and> 1000 < a then
          let totalAmount = sumAmounts txns in
          [\<lparr>aId = 0, aType = DuplicatePayments,
            severity = (if 5 \<le> length txns \<or> 100000 < totalAmount then High else Medium),
            aVendor = Some (splitFirst (CHR ''|'') v), aDepartment = None,
            aAmount = Some totalAmount, aCount = Some (length txns),
            details = [IdenticalAmount a, Departments (uniq (map department txns))]\<rparr>]
        else [])"

definition detectDuplicatePayments :: "transaction list \<Rightarrow> nat \<Rightarrow> error + anomaly list \<times> nat" where
  "detectDuplicatePayments transactions startId =
     (case groupBy (\<lambda>k. False) (\<lambda>t. (vendor t, amount t)) transactions of
        Inl e \<Rightarrow> Inl e
      | Inr groups \<Rightarrow> Inr (pushAll (concat (map duplicateAnomaly groups)) startId))"

section \<open>3. Threshold avoidance\<close>

definition APPROVAL_THRESHOLDS :: "rat list" where
  "APPROVAL_THRESHOLDS = [1000, 2500, 5000, 10000, 25000, 50000, 100000]"

definition lowerBound :: "rat \<Rightarrow> rat" where
  "lowerBound threshold = threshold * (95 / 100)"

definition upperBound :: "rat \<Rightarrow> rat" where
  "upperBound threshold = threshold - 1"

definition nearThreshold :: "rat \<Rightarrow> transaction list \<Rightarrow> transaction list" where
  "nearThreshold threshold transactions =
     filter (\<lambda>t. lowerBound threshold \<le> amount t \<and> amount t \<le> upperBound threshold) transactions"

definition avoidanceAnomaly :: "rat \<Rightarrow> string \<times> transaction list \<Rightarrow> anomaly list" where
  "avoidanceAnomaly threshold e =
     (case e of (v, txns) \<Rightarrow>
        if 3 \<le> length txns then
          [\<lparr>aId = 0, aType = ThresholdAvoidance,
            severity = (if 5 \<le> length txns then Critical else High),
            aVendor = Some v, aDepartment = None,
            aAmount = Some (sumAmounts txns), aCount = Some (length txns),
            details = [ThresholdAvoided threshold,
                       AmountRange (lowerBound threshold) (upperBound threshold),
                       SampleAmounts (map amount (take 5 txns))]\<rparr>]
        else [])"

fun avoidanceLoop :: "rat list \<Rightarrow> transaction list \<Rightarrow> nat \<Rightarrow> error + anomaly list \<times> nat" where
  "avoidanceLoop [] transactions i = Inr ([], i)"
| "avoidanceLoop (threshold # rest) transactions i =
     (case groupBy protoKey vendor (nearThreshold threshold transactions) of
        Inl e \<Rightarrow> Inl e
      | Inr byVendor \<Rightarrow>
          (case pushAll (concat (map (avoidanceAnomaly threshold) (entries byVendor))) i of
             (found, j) \<Rightarrow>
               (case avoidanceLoop rest transactions j of
                  Inl e \<Rightarrow> Inl e
                | Inr (later, k) \<Rightarrow> Inr (found @ later, k))))"

definition detectThresholdAvoidance :: "transaction list \<Rightarrow> nat \<Rightarrow> error + anomaly list \<times> nat" where
  "detectThresholdAvoidance transactions startId =
     avoidanceLoop APPROVAL_THRESHOLDS transactions startId"

section \<open>4. Round numbers\<close>

record round_pattern =
  divisor :: rat
  minAmount :: rat
  name :: string

definition roundPatterns :: "round_pattern list" where
  "roundPatterns =
     [\<lparr>divisor = 10000, minAmount = 10000, name = ''$10K increments''\<rparr>,
      \<lparr>divisor = 5000, minAmount = 5000, name = ''$5K increments''\<rparr>,
      \<lparr>divisor = 1000, minAmount = 5000, name = ''$1K increments''\<rparr>]"

definition jsRemainder :: "rat \<Rightarrow> rat \<Rightarrow> rat" where
  \<comment> \<open>\<open>a % d\<close> for a positive divisor: the quotient is truncated towards zero\<close>
  "jsRemainder a d =
     a - d * of_int (if 0 \<le> a then \<lfloor>a / d\<rfloor> else \<lceil>a / d\<rceil>)"

definition roundPayments :: "round_pattern \<Rightarrow> transaction list \<Rightarrow> transaction list" where
  "roundPayments pattern transactions =
     filter (\<lambda>t. minAmount pattern \<le> amount t \<and> jsRemainder (amount t) (divisor pattern) = 0)
       transactions"

definition roundAnomaly :: "round_pattern \<Rightarrow> transaction list \<Rightarrow> string \<times> transaction list \<Rightarrow>
    anomaly list" where
  "roundAnomaly pattern transactions e =
     (case e of (v, txns) \<Rightarrow>
        let totalForVendor = length (filter (\<lambda>t. vendor t = v) transactions);
            roundPercentage = jsTimes (jsDiv (of_nat (length txns)) (of_nat totalForVendor)) 100
        in
        if 4 \<le> length txns \<and> jsGreater roundPercentage 50 then
          [\<lparr>aId = 0, aType = RoundNumbers,
            severity = (if 10 \<le> length txns then High else Medium),
            aVendor = Some v, aDepartment = None,
            aAmount = Some (sumAmounts txns), aCount = Some (length txns),
            details = [RoundShare (length txns) totalForVendor, PatternName (name pattern),
                       SampleAmounts (map amount (take 5 txns))]\<rparr>]
        else [])"

fun roundLoop :: "round_pattern list \<Rightarrow> transaction list \<Rightarrow> nat \<Rightarrow> error + anomaly list \<times> nat" where
  "roundLoop [] transactions i = Inr ([], i)"
| "roundLoop (pattern # rest) transactions i =
     (case groupBy protoKey vendor (roundPayments pattern transactions) of
        Inl e \<Rightarrow> Inl e
      | Inr byVendor \<Rightarrow>
          (case pushAll (concat (map (roundAnomaly pattern transactions) (entries byVendor))) i of
             (found, j) \<Rightarrow>
               (case roundLoop rest transactions j of
                  Inl e \<Rightarrow> Inl e
                | Inr (later, k) \<Rightarrow> Inr (found @ later, k))))"

definition detectRoundNumbers :: "transaction list \<Rightarrow> nat \<Rightarrow> error + anomaly list \<times> nat" where
  "detectRoundNumbers transactions startId = roundLoop roundPatterns transactions startId"

section \<open>5. Weekend payments\<close>

text \<open>\<open>new Date(t.date).getDay()\<close> belongs to the runtime and depends on its time zone:
  it is the parameter \<open>getDay\<close>, with \<open>None\<close> for the NaN of an unparseable
  date.\<close>

definition isWeekend :: "(string \<Rightarrow> nat option) \<Rightarrow> transaction \<Rightarrow> bool" where
  "isWeekend getDay t =
     (date t \<noteq> [] \<and> (getDay (date t) = Some 0 \<or> getDay (date t) = Some 6))"

definition weekendAnomaly :: "transaction list \<Rightarrow> string \<times> transaction list \<Rightarrow> anomaly list" where
  "weekendAnomaly transactions e =
     (case e of (v, txns) \<Rightarrow>
        if 5 \<le> length txns then
          let allVendorTxns = filter (\<lambda>t. vendor t = v) transactions;
              weekendPercentage =
                jsTimes (jsDiv (of_nat (length txns)) (of_nat (length allVendorTxns))) 100
          in
          if jsGreater weekendPercentage 20 then
            [\<lparr>aId = 0, aType = WeekendPayments,
              severity = (if jsGreater weekendPercentage 40 then High else Medium),
              aVendor = Some v, aDepartment = None,
              aAmount = Some (sumAmounts txns), aCount = Some (length txns),
              details = [WeekendShare (length txns) (length allVendorTxns)]\<rparr>]
          else []
        else [])"

definition detectWeekendPayments :: "(string \<Rightarrow> nat option) \<Rightarrow> transaction list \<Rightarrow> nat \<Rightarrow>
    error + anomaly list \<times> nat" where
  "detectWeekendPayments getDay transactions startId =
     (let weekendPayments = filter (isWeekend getDay) transactions in
      if length weekendPayments = 0 then Inr ([], startId)
      else
        (case groupBy protoKey vendor weekendPayments of
           Inl e \<Rightarrow> Inl e
         | Inr byVendor \<Rightarrow>
             Inr (pushAll (concat (map (weekendAnomaly transactions) (entries byVendor))) startId)))"

section \<open>6. Same-day payments\<close>

definition sameDayKey :: "transaction \<Rightarrow> string" where
  \<comment> \<open>\<open>`${t.vendor}|${t.date.split('T')[0]}`\<close>\<close>
  "sameDayKey t = vendor t @ ''|'' @ splitFirst (CHR ''T'') (date t)"

definition splitSecond :: "char \<Rightarrow> string \<Rightarrow> string" where
  \<comment> \<open>\<open>s.split(c)[1]\<close> for a string that holds \<open>c\<close>\<close>
  "splitSecond c s = splitFirst c (drop 1 (dropWhile (\<lambda>x. x \<noteq> c) s))"

definition sameDayAnomaly :: "string \<times> transaction list \<Rightarrow> anomaly list" where
  "sameDayAnomaly e =
     (case e of (k, txns) \<Rightarrow>
        if 3 \<le> length txns then
          let totalAmount = sumAmounts txns in
          [\<lparr>aId = 0, aType = SameDayPayments,
            severity = (if 5 \<le> length txns \<or> 50000 < totalAmount then High else Medium),
            aVendor = Some (splitFirst (CHR ''|'') k), aDepartment = None,
            aAmount = Some totalAmount, aCount = Some (length txns),
            details = [DateOf (splitSecond (CHR ''|'') k), IndividualAmounts (map amount txns),
                       Departments (uniq (map department txns))]\<rparr>]
        else [])"

definition detectSameDayPayments :: "transaction list \<Rightarrow> nat \<Rightarrow> error + anomaly list \<times> nat" where
  "detectSameDayPayments transactions startId =
     (case groupBy protoKey sameDayKey (filter (\<lambda>t. date t \<noteq> []) transactions) of
        Inl e \<Rightarrow> Inl e
      | Inr groups \<Rightarrow> Inr (pushAll (concat (map sameDayAnomaly (entries groups))) startId))"

section \<open>7. Vendor-name red flags\<close>

text \<open>
  The three regular expressions, each with the flag \<open>i\<close> and without the flag \<open>u\<close>:
  letters match in either case (ASCII letters only), \<open>\w\<close> is an ASCII letter, a digit
  or the underscore, \<open>\s\<close> is white space, and the dot matches any character but a line
  terminator.
\<close>

definition upperLetters :: string where
  "upperLetters = ''ABCDEFGHIJKLMNOPQRSTUVWXYZ''"

definition lowerLetters :: string where
  "lowerLetters = ''abcdefghijklmnopqrstuvwxyz''"

definition lowerChar :: "char \<Rightarrow> char" where
  "lowerChar c = (case map_of (zip upperLetters lowerLetters) c of Some l \<Rightarrow> l | None \<Rightarrow> c)"

definition isLetter :: "char \<Rightarrow> bool" where
  "isLetter c = (c \<in> set upperLetters \<or> c \<in> set lowerLetters)"

definition isWordChar :: "char \<Rightarrow> bool" where
  "isWordChar c = (isLetter c \<or> isDigit c \<or> c = CHR ''_'')"

definition isSpace :: "char \<Rightarrow> bool" where
  "isSpace c = (c \<in> set [CHR 0x09, CHR 0x0A, CHR 0x0B, CHR 0x0C, CHR 0x0D, CHR 0x20, CHR 0xA0])"

definition isLineTerminator :: "char \<Rightarrow> bool" where
  "isLineTerminator c = (c \<in> set [CHR 0x0A, CHR 0x0D])"

definition startsWithCI :: "string \<Rightarrow> string \<Rightarrow> bool" where
  \<comment> \<open>the lower-case word \<open>w\<close> matches at the start of \<open>s\<close>, in either case\<close>
  "startsWithCI w s = (map lowerChar (take (length w) s) = w)"

definition tokenAt :: "string \<Rightarrow> nat \<Rightarrow> bool" where
  \<comment> \<open>\<open>\bLLC\b\<close> matches at position \<open>p\<close>\<close>
  "tokenAt s p =
     (startsWithCI ''llc'' (drop p s)
      \<and> (p = 0 \<or> \<not> isWordChar (s ! (p - 1)))
      \<and> (p + 3 = length s \<or> \<not> isWordChar (s ! (p + 3))))"

definition testDoubleLLC :: "string \<Rightarrow> bool" where
  \<comment> \<open>\<open>/\bLLC\b.*\bLLC\b/i\<close>\<close>
  "testDoubleLLC s =
     (\<exists>p \<in> set [0..<length s]. \<exists>q \<in> set [p + 3..<length s].
        tokenAt s p \<and> tokenAt s q
        \<and> \<not> (\<exists>c \<in> set (take (q - (p + 3)) (drop (p + 3) s)). isLineTerminator c))"

definition testAcronym :: "string \<Rightarrow> bool" where
  \<comment> \<open>\<open>/^[A-Z]{2,4}\s+(LLC|INC|CORP)/i\<close>: white space must follow the two to four
      letters, so they are the whole run of letters the name starts with\<close>
  "testAcronym s =
     (let letters = takeWhile isLetter s;
          afterLetters = dropWhile isLetter s;
          afterSpace = dropWhile isSpace afterLetters
      in 2 \<le> length letters \<and> length letters \<le> 4
         \<and> afterLetters \<noteq> [] \<and> isSpace (hd afterLetters)
         \<and> (startsWithCI ''llc'' afterSpace \<or> startsWithCI ''inc'' afterSpace
            \<or> startsWithCI ''corp'' afterSpace))"

definition containsCI :: "string \<Rightarrow> string \<Rightarrow> bool" where
  "containsCI w s = (\<exists>p \<in> set [0..<Suc (length s)]. startsWithCI w (drop p s))"

definition testGeneric :: "string \<Rightarrow> bool" where
  \<comment> \<open>\<open>/consulting|services|solutions|enterprises|holdings/i\<close>\<close>
  "testGeneric s =
     (\<exists>w \<in> set [''consulting'', ''services'', ''solutions'', ''enterprises'', ''holdings''].
        containsCI w s)"

definition suspiciousPatterns :: "((string \<Rightarrow> bool) \<times> string) list" where
  "suspiciousPatterns =
     [(testDoubleLLC, ''Double LLC''), (testAcronym, ''Acronym company''),
      (testGeneric, ''Generic business name'')]"

record vendor_total =
  total :: rat
  count :: nat
  txns :: "transaction list"

definition addToVendorTotal :: "vendor_total \<Rightarrow> transaction \<Rightarrow> vendor_total" where
  "addToVendorTotal d t =
     \<lparr>total = total d + amount t, count = Suc (count d), txns = txns d @ [t]\<rparr>"

definition primaryDepartment :: "transaction list \<Rightarrow> string" where
  \<comment> \<open>\<open>data.txns[0]?.department || 'Unknown'\<close>\<close>
  "primaryDepartment ts =
     (case ts of [] \<Rightarrow> ''Unknown''
      | t # _ \<Rightarrow> if department t = [] then ''Unknown'' else department t)"

definition addressAnomaly :: "string \<times> vendor_total \<Rightarrow> anomaly list" where
  "addressAnomaly e =
     (case e of (v, d) \<Rightarrow>
        if total d < 50000 then []
        else
          (case find (\<lambda>p. fst p v) suspiciousPatterns of
             None \<Rightarrow> []
           | Some p \<Rightarrow>
               [\<lparr>aId = 0, aType = VendorNameFlag,
                 severity = (if 500000 < total d then Medium else Low),
                 aVendor = Some v, aDepartment = None,
                 aAmount = Some (total d), aCount = Some (count d),
                 details = [PatternName (snd p), PrimaryDepartment (primaryDepartment (txns d))]\<rparr>]))"

definition detectAddressRedFlags :: "transaction list \<Rightarrow> nat \<Rightarrow> error + anomaly list \<times> nat" where
  "detectAddressRedFlags transactions startId =
     (case accum protoKey vendor \<lparr>total = 0, count = 0, txns = []\<rparr> addToVendorTotal
             transactions [] of
        Inl e \<Rightarrow> Inl e
      | Inr vendorTotals \<Rightarrow>
          Inr (pushAll (concat (map addressAnomaly (entries vendorTotals))) startId))"

section \<open>8. High-frequency vendors\<close>

record vendor_stats =
  statCount :: nat
  statTotal :: rat
  departments :: "string list"

definition addToVendorStats :: "vendor_stats \<Rightarrow> transaction \<Rightarrow> vendor_stats" where
  "addToVendorStats s t =
     \<lparr>statCount = Suc (statCount s), statTotal = statTotal s + amount t,
       departments = (if department t \<in> set (departments s) then departments s
                      else departments s @ [department t])\<rparr>"

definition jsLess :: "jsnum \<Rightarrow> rat \<Rightarrow> bool" where
  \<comment> \<open>\<open>c > x\<close>: false for NaN\<close>
  "jsLess x c = (case x of Fin r \<Rightarrow> r < c | PosInf \<Rightarrow> False | NegInf \<Rightarrow> True | NaN \<Rightarrow> False)"

definition frequencyAnomaly :: "jsnum \<Rightarrow> string \<times> vendor_stats \<Rightarrow> anomaly list" where
  "frequencyAnomaly avgCount e =
     (case e of (v, s) \<Rightarrow>
        if jsLess (jsTimes avgCount 5) (of_nat (statCount s)) \<and> 20 < statCount s then
          [\<lparr>aId = 0, aType = HighFrequency,
            severity = (if 100 < statCount s then High else Medium),
            aVendor = Some v, aDepartment = None,
            aAmount = Some (statTotal s), aCount = Some (statCount s),
            details = [AverageCount avgCount, DepartmentsInvolved (length (departments s))]\<rparr>]
        else [])"

definition detectHighFrequency :: "transaction list \<Rightarrow> nat \<Rightarrow> error + anomaly list \<times> nat" where
  "detectHighFrequency transactions startId =
     (case accum protoKey vendor \<lparr>statCount = 0, statTotal = 0, departments = []\<rparr>
             addToVendorStats transactions [] of
        Inl e \<Rightarrow> Inl e
      | Inr vendorStats \<Rightarrow>
          let avgCount = jsDiv (of_nat (foldl (\<lambda>n s. n + statCount s) 0 (map snd (entries vendorStats))))
                               (of_nat (length (entries vendorStats)))
          in Inr (pushAll (concat (map (frequencyAnomaly avgCount) (entries vendorStats))) startId))"

section \<open>9. Large outliers\<close>

definition jsIndex :: "'a list \<Rightarrow> nat \<Rightarrow> 'a option" where
  \<comment> \<open>\<open>xs[i]\<close>: \<open>undefined\<close> out of range\<close>
  "jsIndex xs i = (if i < length xs then Some (xs ! i) else None)"

definition sortedAmounts :: "transaction list \<Rightarrow> rat list" where
  "sortedAmounts transactions = sort (map amount transactions)"

definition median :: "transaction list \<Rightarrow> rat option" where
  "median transactions =
     jsIndex (sortedAmounts transactions) (length transactions div 2)"

definition q3 :: "transaction list \<Rightarrow> rat option" where
  \<comment> \<open>\<open>Math.floor(n * 0.75)\<close> is \<open>3 * n div 4\<close>\<close>
  "q3 transactions = jsIndex (sortedAmounts transactions) (length transactions * 3 div 4)"

definition q1 :: "transaction list \<Rightarrow> rat option" where
  \<comment> \<open>\<open>Math.floor(n * 0.25)\<close> is \<open>n div 4\<close>\<close>
  "q1 transactions = jsIndex (sortedAmounts transactions) (length transactions div 4)"

definition upperFence :: "transaction list \<Rightarrow> rat option" where
  \<comment> \<open>\<open>q3 + iqr * 3\<close> with \<open>iqr = q3 - q1\<close>; NaN (\<open>None\<close>) when a quartile is \<open>undefined\<close>\<close>
  "upperFence transactions =
     (case (q3 transactions, q1 transactions) of
        (Some a, Some b) \<Rightarrow> Some (a + (a - b) * 3)
      | _ \<Rightarrow> None)"

definition isOutlier :: "transaction list \<Rightarrow> transaction \<Rightarrow> bool" where
  "isOutlier transactions t =
     ((case upperFence transactions of Some f \<Rightarrow> f < amount t | None \<Rightarrow> False)
      \<and> 1000000 < amount t)"

definition outliers :: "transaction list \<Rightarrow> transaction list" where
  "outliers transactions = filter (isOutlier transactions) transactions"

definition outlierAnomaly :: "rat option \<Rightarrow> transaction \<Rightarrow> anomaly" where
  "outlierAnomaly med t =
     \<lparr>aId = 0, aType = LargeOutlier,
      severity = (if 10000000 < amount t then Critical else High),
      aVendor = Some (vendor t), aDepartment = Some (department t),
      aAmount = Some (amount t), aCount = None,
      details =
        (case med of
           Some m \<Rightarrow> [MedianPayment m, Multiplier (jsRound (jsDiv (amount t) m))]
         | None \<Rightarrow> [Multiplier NaN])\<rparr>"

definition detectOutliers :: "transaction list \<Rightarrow> nat \<Rightarrow> anomaly list \<times> nat" where
  "detectOutliers transactions startId =
     pushAll (map (outlierAnomaly (median transactions)) (take 10 (outliers transactions))) startId"

section \<open>10. Vendor concentration\<close>

text \<open>
  \<open>vendorTotals[t.vendor] = (vendorTotals[t.vendor] || 0) + t.amount\<close> does not throw
  on an inherited name: the inherited function or object is truthy, and adding a number
  to it gives a string that is no numeral (\<open>Str\<close>). The string becomes an own property,
  except for \<open>__proto__\<close>, whose setter ignores a string. With a string among the
  totals, \<open>totalSpending\<close> is a string that is no numeral, every \<open>percentage\<close> is NaN
  and the test \<open>percentage > 15\<close> fails whatever order the sort leaves.
\<close>

datatype tot = Num rat | Str

definition addTotal :: "(string \<times> tot) list \<Rightarrow> transaction \<Rightarrow> (string \<times> tot) list" where
  "addTotal obj t =
     (case map_of obj (vendor t) of
        Some (Num x) \<Rightarrow> setOwn (vendor t) (Num (x + amount t)) obj
      | Some Str \<Rightarrow> obj
      | None \<Rightarrow>
          if vendor t = ''__proto__'' then obj
          else if protoKey (vendor t) then obj @ [(vendor t, Str)]
          else obj @ [(vendor t, Num (amount t))])"

definition vendorTotals :: "transaction list \<Rightarrow> (string \<times> tot) list" where
  "vendorTotals transactions = foldl addTotal [] transactions"

fun numeric :: "(string \<times> tot) list \<Rightarrow> (string \<times> rat) list option" where
  "numeric [] = Some []"
| "numeric ((k, Num x) # r) = (case numeric r of Some es \<Rightarrow> Some ((k, x) # es) | None \<Rightarrow> None)"
| "numeric ((k, Str) # r) = None"

definition sortedVendors :: "(string \<times> rat) list \<Rightarrow> (string \<times> rat \<times> jsnum) list" where
  "sortedVendors es =
     (let totalSpending = foldl (+) 0 (map snd es) in
      map (\<lambda>p. (fst p, snd p, jsTimes (jsDiv (snd p) totalSpending) 100))
        (sort_key (\<lambda>p. - snd p) es))"

definition detectVendorConcentration :: "transaction list \<Rightarrow> nat \<Rightarrow> anomaly list \<times> nat" where
  "detectVendorConcentration transactions startId =
     (case numeric (entries (vendorTotals transactions)) of
        None \<Rightarrow> ([], startId)
      | Some es \<Rightarrow>
          (case sortedVendors es of
             [] \<Rightarrow> ([], startId)
           | first # _ \<Rightarrow>
               if jsGreater (snd (snd first)) 15 then
                 pushAll
                   [\<lparr>aId = 0, aType = VendorConcentration,
                     severity = (if jsGreater (snd (snd first)) 25 then High else Medium),
                     aVendor = Some (fst first), aDepartment = None,
                     aAmount = Some (fst (snd first)), aCount = None,
                     details = [TotalSpending (foldl (+) 0 (map snd es)),
                                TopVendors (take 5 (sortedVendors es))]\<rparr>]
                   startId
               else ([], startId)))"

section \<open>The orchestrator\<close>

definition computeStats :: "anomaly list \<Rightarrow> detection_stats" where
  "computeStats as =
     \<lparr>totalAnomalies = length as,
      criticalCount = length (filter (\<lambda>a. severity a = Critical) as),
      highCount = length (filter (\<lambda>a. severity a = High) as),
      mediumCount = length (filter (\<lambda>a. severity a = Medium) as),
      lowCount = length (filter (\<lambda>a. severity a = Low) as),
      totalFlaggedAmount =
        foldl (\<lambda>s a. s + (case aAmount a of Some x \<Rightarrow> x | None \<Rightarrow> 0)) 0 as\<rparr>"

definition runAll :: "(string \<Rightarrow> nat option) \<Rightarrow> transaction list \<Rightarrow> error + anomaly list" where
  "runAll getDay transactions =
     (case analyzeBenfordsLaw transactions 0 of (a1, i1) \<Rightarrow>
      case detectDuplicatePayments transactions i1 of Inl e \<Rightarrow> Inl e | Inr (a2, i2) \<Rightarrow>
      case detectThresholdAvoidance transactions i2 of Inl e \<Rightarrow> Inl e | Inr (a3, i3) \<Rightarrow>
      case detectRoundNumbers transactions i3 of Inl e \<Rightarrow> Inl e | Inr (a4, i4) \<Rightarrow>
      case detectWeekendPayments getDay transactions i4 of Inl e \<Rightarrow> Inl e | Inr (a5, i5) \<Rightarrow>
      case detectSameDayPayments transactions i5 of Inl e \<Rightarrow> Inl e | Inr (a6, i6) \<Rightarrow>
      case detectAddressRedFlags transactions i6 of Inl e \<Rightarrow> Inl e | Inr (a7, i7) \<Rightarrow>
      case detectHighFrequency transactions i7 of Inl e \<Rightarrow> Inl e | Inr (a8, i8) \<Rightarrow>
      case detectOutliers transactions i8 of (a9, i9) \<Rightarrow>
      case detectVendorConcentration transactions i9 of (a10, i10) \<Rightarrow>
        Inr (a1 @ a2 @ a3 @ a4 @ a5 @ a6 @ a7 @ a8 @ a9 @ a10))"

definition analyzeTransactions :: "(string \<Rightarrow> nat option) \<Rightarrow> transaction list \<Rightarrow>
    error + detection_result" where
  "analyzeTransactions getDay transactions =
     (case runAll getDay transactions of
        Inl e \<Rightarrow> Inl e
      | Inr as \<Rightarrow> Inr \<lparr>anomalies = as, stats = computeStats as\<rparr>)"

section \<open>Notions used to state the properties\<close>

definition payment :: "string \<Rightarrow> rat \<Rightarrow> transaction" where
  \<comment> \<open>an undated payment of department \<open>D\<close>, for the examples\<close>
  "payment v a = \<lparr>department = ''D'', vendor = v, amount = a, date = [], description = None\<rparr>"

definition datedPayment :: "string \<Rightarrow> rat \<Rightarrow> string \<Rightarrow> transaction" where
  "datedPayment v a d = \<lparr>department = ''D'', vendor = v, amount = a, date = d, description = None\<rparr>"

definition unnumbered :: "anomaly \<Rightarrow> anomaly" where
  \<comment> \<open>an anomaly without its number\<close>
  "unnumbered a = a\<lparr>aId := 0\<rparr>"








definition tripleSplit :: "transaction list" where
  \<comment> \<open>three payments of 9,950 to one vendor on one day\<close>
  "tripleSplit =
     [datedPayment ''Acme LLC'' 9950 ''2024-01-02'', datedPayment ''Acme LLC'' 9950 ''2024-01-02'',
      datedPayment ''Acme LLC'' 9950 ''2024-01-02'']"

definition tripleSplitResult :: detection_result where
  "tripleSplitResult =
     \<lparr>anomalies =
        [\<lparr>aId = 0, aType = DuplicatePayments, severity = Medium,
          aVendor = Some ''Acme LLC'', aDepartment = None,
          aAmount = Some 29850, aCount = Some 3,
          details = [IdenticalAmount 9950, Departments [''D'']]\<rparr>,
         \<lparr>aId = 1, aType = ThresholdAvoidance, severity = High,
          aVendor = Some ''Acme LLC'', aDepartment = None,
          aAmount = Some 29850, aCount = Some 3,
          details = [ThresholdAvoided 10000, AmountRange 9500 9999,
                     SampleAmounts [9950, 9950, 9950]]\<rparr>,
         \<lparr>aId = 2, aType = SameDayPayments, severity = Medium,
          aVendor = Some ''Acme LLC'', aDepartment = None,
          aAmount = Some 29850, aCount = Some 3,
          details = [DateOf ''2024-01-02'', IndividualAmounts [9950, 9950, 9950],
                     Departments [''D'']]\<rparr>,
         \<lparr>aId = 3, aType = VendorConcentration, severity = High,
          aVendor = Some ''Acme LLC'', aDepartment = None,
          aAmount = Some 29850, aCount = None,
          details = [TotalSpending 29850, TopVendors [(''Acme LLC'', 29850, Fin 100)]]\<rparr>],
      stats = \<lparr>totalAnomalies = 4, criticalCount = 0, highCount = 2, mediumCount = 2,
                lowCount = 0, totalFlaggedAmount = 119400\<rparr>\<rparr>"

definition vendorPayments :: "transaction list \<Rightarrow> string \<Rightarrow> transaction list" where
  \<comment> \<open>the payments of one vendor, in input order\<close>
  "vendorPayments txs v = filter (\<lambda>t. vendor t = v) txs"

definition vendorSum :: "transaction list \<Rightarrow> string \<Rightarrow> rat" where
  "vendorSum txs v = sum_list (map amount (vendorPayments txs v))"

definition firstMatch :: "string \<Rightarrow> string option" where
  \<comment> \<open>the name of the first of the three patterns, in their order, that matches\<close>
  "firstMatch v =
     (if testDoubleLLC v then Some ''Double LLC''
      else if testAcronym v then Some ''Acronym company''
      else if testGeneric v then Some ''Generic business name''
      else None)"





definition expectedAvoidance :: "rat \<Rightarrow> string \<Rightarrow> transaction list \<Rightarrow> anomaly" where
  "expectedAvoidance th v w =
     \<lparr>aId = 0, aType = ThresholdAvoidance,
      severity = (if 5 \<le> length w then Critical else High),
      aVendor = Some v, aDepartment = None,
      aAmount = Some (sum_list (map amount w)), aCount = Some (length w),
      details = [ThresholdAvoided th, AmountRange (lowerBound th) (upperBound th),
                 SampleAmounts (map amount (take 5 w))]\<rparr>"

definition expectedRound :: "round_pattern \<Rightarrow> string \<Rightarrow> transaction list \<Rightarrow> nat \<Rightarrow> anomaly" where
  "expectedRound p v w totalForVendor =
     \<lparr>aId = 0, aType = RoundNumbers,
      severity = (if 10 \<le> length w then High else Medium),
      aVendor = Some v, aDepartment = None,
      aAmount = Some (sum_list (map amount w)), aCount = Some (length w),
      details = [RoundShare (length w) totalForVendor, PatternName (name p),
                 SampleAmounts (map amount (take 5 w))]\<rparr>"

definition grandTotal :: "transaction list \<Rightarrow> rat" where
  "grandTotal txs = sum_list (map amount txs)"

definition topTotal :: "transaction list \<Rightarrow> rat" where
  \<comment> \<open>the largest vendor total of a non-empty input\<close>
  "topTotal txs = Max (vendorSum txs ` vendor ` set txs)"

definition stepNum :: "tot \<Rightarrow> transaction \<Rightarrow> tot" where
  "stepNum v t = (case v of Num x \<Rightarrow> Num (x + amount t) | Str \<Rightarrow> Str)"

section \<open>Numbering and statistics\<close>

lemma pushAll_snd: "snd (pushAll as i) = i + length as"
  by (induction as arbitrary: i) (simp_all add: case_prod_beta)

lemma pushAll_length: "length (fst (pushAll as i)) = length as"
  by (induction as arbitrary: i) (simp_all add: case_prod_beta)

lemma pushAll_ids: "map aId (fst (pushAll as i)) = [i..<i + length as]"
proof (induction as arbitrary: i)
  case Nil
  then show ?case by simp
next
  case (Cons a as)
  have 1: "[i..<i + length (a # as)] = i # [Suc i..<i + length (a # as)]"
    by (rule upt_conv_Cons) simp
  have 2: "i + length (a # as) = Suc i + length as" by simp
  have 3: "map aId (fst (pushAll (a # as) i)) = i # map aId (fst (pushAll as (Suc i)))"
    by (simp add: case_prod_beta)
  show ?case unfolding 3 1 unfolding 2 Cons[of "Suc i"] ..
qed

lemma pushAll_unnumbered: "map unnumbered (fst (pushAll as i)) = map unnumbered as"
  by (induction as arbitrary: i) (simp_all add: case_prod_beta unnumbered_def)

lemma foldl_plus_sum: "foldl (\<lambda>s a. s + f a) z xs = z + sum_list (map f xs)" for z :: rat
  by (induction xs arbitrary: z) auto

lemma count_list_filter: "count_list (map f xs) c = length (filter (\<lambda>a. f a = c) xs)"
  by (induction xs) auto

lemma severity_partition:
  "length (filter (\<lambda>a. severity a = Critical) as) + length (filter (\<lambda>a. severity a = High) as)
   + length (filter (\<lambda>a. severity a = Medium) as) + length (filter (\<lambda>a. severity a = Low) as)
   = length as"
proof (induction as)
  case Nil
  then show ?case by simp
next
  case (Cons a as)
  then show ?case by (cases "severity a") simp_all
qed

lemma computeStats_fields:
  "totalAnomalies (computeStats as) = length as"
  "criticalCount (computeStats as) = count_list (map severity as) Critical"
  "highCount (computeStats as) = count_list (map severity as) High"
  "mediumCount (computeStats as) = count_list (map severity as) Medium"
  "lowCount (computeStats as) = count_list (map severity as) Low"
  "totalFlaggedAmount (computeStats as) =
     sum_list (map (\<lambda>a. case aAmount a of Some x \<Rightarrow> x | None \<Rightarrow> 0) as)"
  by (simp_all add: computeStats_def count_list_filter foldl_plus_sum)

text \<open>
  Claim C1. On the empty input \<open>analyzeTransactions\<close> returns no anomaly, and
  \<open>totalAnomalies\<close>, the four severity counts and \<open>totalFlaggedAmount\<close> are zero.
\<close>

theorem empty_input:
  "analyzeTransactions getDay [] =
     Inr \<lparr>anomalies = [],
          stats = \<lparr>totalAnomalies = 0, criticalCount = 0, highCount = 0, mediumCount = 0,
                   lowCount = 0, totalFlaggedAmount = 0\<rparr>\<rparr>"
  by (simp add: analyzeTransactions_def runAll_def analyzeBenfordsLaw_def
      detectDuplicatePayments_def groupBy_def detectThresholdAvoidance_def
      APPROVAL_THRESHOLDS_def nearThreshold_def entries_def detectRoundNumbers_def
      roundPatterns_def roundPayments_def detectWeekendPayments_def
      detectSameDayPayments_def detectAddressRedFlags_def detectHighFrequency_def
      detectOutliers_def outliers_def detectVendorConcentration_def vendorTotals_def
      sortedVendors_def computeStats_def)

text \<open>
  Claim C9. Whenever \<open>analyzeTransactions\<close> returns, its statistics are functions of
  the returned anomaly list alone: \<open>totalAnomalies\<close> is its length, each severity count
  is the number of anomalies of that severity (so the four counts add up to the length),
  and \<open>totalFlaggedAmount\<close> is the plain sum of the anomalies' amounts, an anomaly
  without an amount counting 0. Nothing is deduplicated: in the witness three payments
  of 9,950 (29,850 together) are flagged by four methods and 119,400 is reported.
\<close>

theorem stats_from_anomalies:
  "analyzeTransactions getDay txs = Inr r \<Longrightarrow>
     totalAnomalies (stats r) = length (anomalies r)
   \<and> criticalCount (stats r) = count_list (map severity (anomalies r)) Critical
   \<and> highCount (stats r) = count_list (map severity (anomalies r)) High
   \<and> mediumCount (stats r) = count_list (map severity (anomalies r)) Medium
   \<and> lowCount (stats r) = count_list (map severity (anomalies r)) Low
   \<and> totalFlaggedAmount (stats r) =
       sum_list (map (\<lambda>a. case aAmount a of Some x \<Rightarrow> x | None \<Rightarrow> 0) (anomalies r))
   \<and> criticalCount (stats r) + highCount (stats r) + mediumCount (stats r) + lowCount (stats r)
       = totalAnomalies (stats r)"
proof -
  assume "analyzeTransactions getDay txs = Inr r"
  then obtain as where r: "r = \<lparr>anomalies = as, stats = computeStats as\<rparr>"
    by (auto simp: analyzeTransactions_def split: sum.splits)
  have "criticalCount (computeStats as) + highCount (computeStats as)
        + mediumCount (computeStats as) + lowCount (computeStats as)
        = totalAnomalies (computeStats as)"
    using severity_partition[of as] by (simp add: computeStats_def)
  then show ?thesis by (simp add: r computeStats_fields)
qed

lemma tripleSplit_eval: "analyzeTransactions (\<lambda>_. None) tripleSplit = Inr tripleSplitResult"
  by code_simp

theorem stats_from_anomalies_witness:
  "analyzeTransactions (\<lambda>_. None) tripleSplit = Inr tripleSplitResult
   \<and> sum_list (map amount tripleSplit) = 29850
   \<and> length (anomalies tripleSplitResult) = 4
   \<and> totalFlaggedAmount (stats tripleSplitResult) = 119400
   \<and> totalFlaggedAmount (stats tripleSplitResult) =
       sum_list (map (\<lambda>a. case aAmount a of Some x \<Rightarrow> x | None \<Rightarrow> 0) (anomalies tripleSplitResult))"
  using stats_from_anomalies[OF tripleSplit_eval] tripleSplit_eval
  by (simp add: tripleSplit_def datedPayment_def tripleSplitResult_def)

text \<open>
  Claim C10. The seven windows are [950, 999], [2375, 2499], [4750, 4999], [9500, 9999],
  [23750, 24999], [47500, 49999] and [95000, 99999]; the thresholds are distinct, an
  amount lies in the window of at most one of them, and so a transaction is among the
  near-threshold payments of at most one threshold.
\<close>

theorem windows_disjoint:
  "map (\<lambda>th. (lowerBound th, upperBound th)) APPROVAL_THRESHOLDS =
     [(950, 999), (2375, 2499), (4750, 4999), (9500, 9999), (23750, 24999),
      (47500, 49999), (95000, 99999)]
   \<and> distinct APPROVAL_THRESHOLDS
   \<and> (\<forall>a. length (filter (\<lambda>th. lowerBound th \<le> a \<and> a \<le> upperBound th) APPROVAL_THRESHOLDS) \<le> 1)
   \<and> (\<forall>t txs. length (filter (\<lambda>th. t \<in> set (nearThreshold th txs)) APPROVAL_THRESHOLDS) \<le> 1)"
  by (simp add: nearThreshold_def APPROVAL_THRESHOLDS_def lowerBound_def upperBound_def)

section \<open>The digit-distribution check\<close>



















section \<open>The large-outlier check\<close>












section \<open>Objects as dictionaries\<close>

lemma map_of_setOwn: "map_of (setOwn k v obj) = (map_of obj)(k \<mapsto> v)"
  by (induction obj) (auto simp: fun_eq_iff)

lemma keys_setOwn: "fst ` set (setOwn k v obj) = insert k (fst ` set obj)"
  by (induction obj) auto

lemma distinct_setOwn: "distinct (map fst obj) \<Longrightarrow> distinct (map fst (setOwn k v obj))"
proof (induction obj)
  case Nil
  then show ?case by simp
next
  case (Cons p obj)
  then show ?case using keys_setOwn[of k v obj] by (auto simp: image_iff)
qed

lemma accum_returns:
  "\<forall>t \<in> set ts. \<not> inh (key t) \<Longrightarrow> \<exists>obj'. accum inh key init step ts obj = Inr obj'"
  by (induction ts arbitrary: obj) (auto split: option.splits)

lemma accum_throws:
  "\<exists>t \<in> set ts. inh (key t) \<Longrightarrow> \<forall>k \<in> fst ` set obj. \<not> inh k \<Longrightarrow>
   accum inh key init step ts obj = Inl TypeError"
proof (induction ts arbitrary: obj)
  case Nil
  then show ?case by simp
next
  case (Cons t ts)
  show ?case
  proof (cases "map_of obj (key t)")
    case None
    show ?thesis
    proof (cases "inh (key t)")
      case True
      then show ?thesis using None by simp
    next
      case False
      then have ex: "\<exists>t \<in> set ts. inh (key t)" using Cons.prems(1) by auto
      have inv: "\<forall>k \<in> fst ` set (obj @ [(key t, step init t)]). \<not> inh k"
        using Cons.prems(2) False by auto
      show ?thesis using None False Cons.IH[OF ex inv] by simp
    qed
  next
    case (Some v)
    then have own: "key t \<in> fst ` set obj" by (metis map_of_eq_None_iff option.distinct(1))
    then have ninh: "\<not> inh (key t)" using Cons.prems(2) by blast
    then have ex: "\<exists>t \<in> set ts. inh (key t)" using Cons.prems(1) by auto
    have inv: "\<forall>k \<in> fst ` set (setOwn (key t) (step v t) obj). \<not> inh k"
      using Cons.prems(2) own by (simp add: keys_setOwn insert_absorb)
    show ?thesis using Some Cons.IH[OF ex inv] by simp
  qed
qed

lemma accum_result:
  assumes "accum inh key init step ts obj = Inr obj'" "distinct (map fst obj)"
  shows "distinct (map fst obj')"
    and "fst ` set obj' = fst ` set obj \<union> key ` set ts"
    and "map_of obj' k =
          (if filter (\<lambda>t. key t = k) ts = [] then map_of obj k
           else Some (foldl step (case map_of obj k of None \<Rightarrow> init | Some v \<Rightarrow> v)
                        (filter (\<lambda>t. key t = k) ts)))"
  using assms
proof (induction ts arbitrary: obj)
  case Nil
  { case 1 then show ?case by simp }
  { case 2 then show ?case by simp }
  { case 3 then show ?case by simp }
next
  case (Cons t ts)
  { case 1
    show ?case
    proof (cases "map_of obj (key t)")
      case None
      then have nk: "key t \<notin> fst ` set obj" by (simp add: map_of_eq_None_iff)
      from 1 None have r: "accum inh key init step ts (obj @ [(key t, step init t)]) = Inr obj'"
        by (simp split: if_splits)
      have d: "distinct (map fst (obj @ [(key t, step init t)]))" using 1(2) nk by simp
      show ?thesis using Cons.IH(1)[OF r d] .
    next
      case (Some v)
      from 1 Some have r: "accum inh key init step ts (setOwn (key t) (step v t) obj) = Inr obj'"
        by simp
      show ?thesis using Cons.IH(1)[OF r distinct_setOwn[OF 1(2)]] .
    qed }
  { case 2
    show ?case
    proof (cases "map_of obj (key t)")
      case None
      then have nk: "key t \<notin> fst ` set obj" by (simp add: map_of_eq_None_iff)
      from 2 None have r: "accum inh key init step ts (obj @ [(key t, step init t)]) = Inr obj'"
        by (simp split: if_splits)
      have d: "distinct (map fst (obj @ [(key t, step init t)]))" using 2(2) nk by simp
      show ?thesis using Cons.IH(2)[OF r d] by auto
    next
      case (Some v)
      then have own: "key t \<in> fst ` set obj" by (metis map_of_eq_None_iff option.distinct(1))
      from 2 Some have r: "accum inh key init step ts (setOwn (key t) (step v t) obj) = Inr obj'"
        by simp
      show ?thesis using Cons.IH(2)[OF r distinct_setOwn[OF 2(2)]] own
        by (auto simp: keys_setOwn)
    qed }
  { case 3
    show ?case
    proof (cases "map_of obj (key t)")
      case None
      then have nk: "key t \<notin> fst ` set obj" by (simp add: map_of_eq_None_iff)
      from 3 None have r: "accum inh key init step ts (obj @ [(key t, step init t)]) = Inr obj'"
        by (simp split: if_splits)
      have d: "distinct (map fst (obj @ [(key t, step init t)]))" using 3(2) nk by simp
      have m: "map_of (obj @ [(key t, step init t)]) k =
               (if k = key t then Some (step init t) else map_of obj k)"
        using None by (auto simp: map_of_append map_add_def split: option.splits)
      show ?thesis using Cons.IH(3)[OF r d] m None by auto
    next
      case (Some v)
      from 3 Some have r: "accum inh key init step ts (setOwn (key t) (step v t) obj) = Inr obj'"
        by simp
      show ?thesis using Cons.IH(3)[OF r distinct_setOwn[OF 3(2)]] Some
        by (auto simp: map_of_setOwn)
    qed }
qed

lemma foldl_snoc: "foldl (\<lambda>g t. g @ [t]) a xs = a @ xs"
  by (induction xs arbitrary: a) auto

lemma groupBy_result:
  assumes "groupBy inh key ts = Inr g"
  shows "distinct (map fst g)"
    and "fst ` set g = key ` set ts"
    and "map_of g k = (if k \<in> key ` set ts then Some (filter (\<lambda>t. key t = k) ts) else None)"
proof -
  have a: "accum inh key [] (\<lambda>g t. g @ [t]) ts [] = Inr g" using assms by (simp add: groupBy_def)
  show "distinct (map fst g)" using accum_result(1)[OF a] by simp
  show "fst ` set g = key ` set ts" using accum_result(2)[OF a] by simp
  have "k \<in> key ` set ts \<longleftrightarrow> filter (\<lambda>t. key t = k) ts \<noteq> []"
    by (auto simp: filter_empty_conv)
  then show "map_of g k = (if k \<in> key ` set ts then Some (filter (\<lambda>t. key t = k) ts) else None)"
    using accum_result(3)[OF a, of k] by (simp add: foldl_snoc)
qed

lemma set_entries: "set (entries obj) = set obj"
  by (auto simp: entries_def)

lemma distinct_entries:
  assumes "distinct (map fst obj)"
  shows "distinct (map fst (entries obj))"
proof -
  from assms have d: "distinct obj" and i: "inj_on fst (set obj)" by (simp_all add: distinct_map)
  have "distinct (entries obj)" using d by (auto simp: entries_def)
  then show ?thesis using i by (simp add: distinct_map set_entries)
qed

lemma map_of_entries: "distinct (map fst obj) \<Longrightarrow> map_of (entries obj) = map_of obj"
  using distinct_entries map_of_inject_set set_entries by blast

lemma filter_concat_keyed:
  assumes "distinct (map fst es)"
    and "\<And>e a. e \<in> set es \<Longrightarrow> a \<in> set (f e) \<Longrightarrow> g a = Some (fst e)"
  shows "filter (\<lambda>a. g a = Some k) (concat (map f es)) =
         (case map_of es k of None \<Rightarrow> [] | Some x \<Rightarrow> f (k, x))"
  using assms
proof (induction es)
  case Nil
  then show ?case by simp
next
  case (Cons e es)
  have ih: "filter (\<lambda>a. g a = Some k) (concat (map f es)) =
         (case map_of es k of None \<Rightarrow> [] | Some x \<Rightarrow> f (k, x))"
    using Cons by simp
  show ?case
  proof (cases "fst e = k")
    case True
    then have "map_of es k = None" using Cons.prems(1) by (simp add: map_of_eq_None_iff)
    moreover have "filter (\<lambda>a. g a = Some k) (f e) = f e"
      using Cons.prems(2)[of e] True by (simp add: filter_id_conv)
    moreover have "f e = f (k, snd e)" using True by (metis prod.collapse)
    ultimately show ?thesis using ih True by simp
  next
    case False
    then have "filter (\<lambda>a. g a = Some k) (f e) = []"
      using Cons.prems(2)[of e] by (simp add: filter_empty_conv)
    then show ?thesis using ih False by (cases e) simp
  qed
qed

section \<open>The vendor-name red-flag check\<close>





lemma map_unnumbered_id: "\<forall>a \<in> set as. aId a = 0 \<Longrightarrow> map unnumbered as = as"
  by (induction as) (simp_all add: unnumbered_def)


section \<open>The vendor-name red-flag check: what holds\<close>






text \<open>The name \<open>Beta Services LLC\<close> holds LLC once: it is a Generic business name, not
  a Double LLC.\<close>

lemma beta_services_is_generic:
  "firstMatch ''Beta Services LLC'' = Some ''Generic business name''"
  by code_simp

section \<open>Totality\<close>

lemma protoKey_no_bar: "protoKey k \<Longrightarrow> CHR ''|'' \<notin> set k"
  by (auto simp: protoKey_def protoKeys_def)

lemma sameDayKey_not_inherited: "\<not> protoKey (sameDayKey t)"
  using protoKey_no_bar[of "sameDayKey t"] by (auto simp: sameDayKey_def)

lemma groupBy_returns:
  "\<forall>t \<in> set ts. \<not> inh (key t) \<Longrightarrow> \<exists>g. groupBy inh key ts = Inr g"
  unfolding groupBy_def by (rule accum_returns)

lemma avoidanceLoop_returns:
  "\<forall>t \<in> set txs. \<not> protoKey (vendor t) \<Longrightarrow> \<exists>r. avoidanceLoop ths txs i = Inr r"
proof (induction ths arbitrary: i)
  case Nil
  then show ?case by simp
next
  case (Cons th ths)
  have "\<forall>t \<in> set (nearThreshold th txs). \<not> protoKey (vendor t)"
    using Cons.prems by (simp add: nearThreshold_def)
  then obtain g where g: "groupBy protoKey vendor (nearThreshold th txs) = Inr g"
    using groupBy_returns[where inh = protoKey and key = vendor] by blast
  obtain found j where p: "pushAll (concat (map (avoidanceAnomaly th) (entries g))) i = (found, j)"
    by (cases "pushAll (concat (map (avoidanceAnomaly th) (entries g))) i")
  obtain r where r: "avoidanceLoop ths txs j = Inr r" using Cons.IH[OF Cons.prems] by blast
  show ?case using g p r by (cases r) simp
qed

lemma roundLoop_returns:
  "\<forall>t \<in> set txs. \<not> protoKey (vendor t) \<Longrightarrow> \<exists>r. roundLoop ps txs i = Inr r"
proof (induction ps arbitrary: i)
  case Nil
  then show ?case by simp
next
  case (Cons p ps)
  have "\<forall>t \<in> set (roundPayments p txs). \<not> protoKey (vendor t)"
    using Cons.prems by (simp add: roundPayments_def)
  then obtain g where g: "groupBy protoKey vendor (roundPayments p txs) = Inr g"
    using groupBy_returns[where inh = protoKey and key = vendor] by blast
  obtain found j where p: "pushAll (concat (map (roundAnomaly p txs) (entries g))) i = (found, j)"
    by (cases "pushAll (concat (map (roundAnomaly p txs) (entries g))) i")
  obtain r where r: "roundLoop ps txs j = Inr r" using Cons.IH[OF Cons.prems] by blast
  show ?case using g p r by (cases r) simp
qed

lemma detectors_return:
  assumes np: "\<forall>t \<in> set txs. \<not> protoKey (vendor t)"
  shows "\<exists>r. detectDuplicatePayments txs i = Inr r"
    and "\<exists>r. detectThresholdAvoidance txs i = Inr r"
    and "\<exists>r. detectRoundNumbers txs i = Inr r"
    and "\<exists>r. detectWeekendPayments getDay txs i = Inr r"
    and "\<exists>r. detectSameDayPayments txs i = Inr r"
    and "\<exists>r. detectAddressRedFlags txs i = Inr r"
    and "\<exists>r. detectHighFrequency txs i = Inr r"
proof -
  show "\<exists>r. detectDuplicatePayments txs i = Inr r"
    using groupBy_returns[where inh = "\<lambda>k. False" and key = "\<lambda>t. (vendor t, amount t)" and ts = txs]
    by (auto simp: detectDuplicatePayments_def)
  show "\<exists>r. detectThresholdAvoidance txs i = Inr r"
    unfolding detectThresholdAvoidance_def by (rule avoidanceLoop_returns[OF np])
  show "\<exists>r. detectRoundNumbers txs i = Inr r"
    unfolding detectRoundNumbers_def by (rule roundLoop_returns[OF np])
  have "\<forall>t \<in> set (filter (isWeekend getDay) txs). \<not> protoKey (vendor t)" using np by simp
  then obtain g where "groupBy protoKey vendor (filter (isWeekend getDay) txs) = Inr g"
    using groupBy_returns[where inh = protoKey and key = vendor] by blast
  then show "\<exists>r. detectWeekendPayments getDay txs i = Inr r"
    by (simp add: detectWeekendPayments_def Let_def)
  obtain g where "groupBy protoKey sameDayKey (filter (\<lambda>t. date t \<noteq> []) txs) = Inr g"
    using groupBy_returns[where inh = protoKey and key = sameDayKey
        and ts = "filter (\<lambda>t. date t \<noteq> []) txs"] sameDayKey_not_inherited by blast
  then show "\<exists>r. detectSameDayPayments txs i = Inr r"
    by (simp add: detectSameDayPayments_def)
  obtain obj where "accum protoKey vendor \<lparr>total = 0, count = 0, txns = []\<rparr> addToVendorTotal txs [] = Inr obj"
    using accum_returns[where inh = protoKey and key = vendor and init = "\<lparr>total = 0, count = 0, txns = []\<rparr>"
        and step = addToVendorTotal and obj = "[]", OF np] by blast
  then show "\<exists>r. detectAddressRedFlags txs i = Inr r"
    by (simp add: detectAddressRedFlags_def)
  obtain obj where "accum protoKey vendor \<lparr>statCount = 0, statTotal = 0, departments = []\<rparr>
      addToVendorStats txs [] = Inr obj"
    using accum_returns[where inh = protoKey and key = vendor
        and init = "\<lparr>statCount = 0, statTotal = 0, departments = []\<rparr>"
        and step = addToVendorStats and obj = "[]", OF np] by blast
  then show "\<exists>r. detectHighFrequency txs i = Inr r"
    by (simp add: detectHighFrequency_def Let_def)
qed

lemma detectAddressRedFlags_throws:
  "\<exists>t \<in> set txs. protoKey (vendor t) \<Longrightarrow> detectAddressRedFlags txs i = Inl TypeError"
  using accum_throws[where inh = protoKey and key = vendor and obj = "[]" and ts = txs
      and init = "\<lparr>total = 0, count = 0, txns = []\<rparr>" and step = addToVendorTotal]
  by (simp add: detectAddressRedFlags_def)

lemma runAll_returns_iff:
  "(\<exists>as. runAll getDay txs = Inr as) \<longleftrightarrow> (\<forall>t \<in> set txs. \<not> protoKey (vendor t))"
proof
  assume "\<exists>as. runAll getDay txs = Inr as"
  then obtain as where r: "runAll getDay txs = Inr as" by blast
  show "\<forall>t \<in> set txs. \<not> protoKey (vendor t)"
  proof (rule ccontr)
    assume "\<not> (\<forall>t \<in> set txs. \<not> protoKey (vendor t))"
    then have "\<And>i. detectAddressRedFlags txs i = Inl TypeError"
      using detectAddressRedFlags_throws by blast
    then have "\<exists>e. runAll getDay txs = Inl e"
      by (simp add: runAll_def split: prod.splits sum.splits)
    then show False using r by simp
  qed
next
  assume np: "\<forall>t \<in> set txs. \<not> protoKey (vendor t)"
  obtain a1 i1 where s1: "analyzeBenfordsLaw txs 0 = (a1, i1)"
    by (cases "analyzeBenfordsLaw txs 0")
  obtain a2 i2 where s2: "detectDuplicatePayments txs i1 = Inr (a2, i2)"
    using detectors_return(1)[OF np, of i1] by (metis surj_pair)
  obtain a3 i3 where s3: "detectThresholdAvoidance txs i2 = Inr (a3, i3)"
    using detectors_return(2)[OF np, of i2] by (metis surj_pair)
  obtain a4 i4 where s4: "detectRoundNumbers txs i3 = Inr (a4, i4)"
    using detectors_return(3)[OF np, of i3] by (metis surj_pair)
  obtain a5 i5 where s5: "detectWeekendPayments getDay txs i4 = Inr (a5, i5)"
    using detectors_return(4)[OF np, of getDay i4] by (metis surj_pair)
  obtain a6 i6 where s6: "detectSameDayPayments txs i5 = Inr (a6, i6)"
    using detectors_return(5)[OF np, of i5] by (metis surj_pair)
  obtain a7 i7 where s7: "detectAddressRedFlags txs i6 = Inr (a7, i7)"
    using detectors_return(6)[OF np, of i6] by (metis surj_pair)
  obtain a8 i8 where s8: "detectHighFrequency txs i7 = Inr (a8, i8)"
    using detectors_return(7)[OF np, of i7] by (metis surj_pair)
  show "\<exists>as. runAll getDay txs = Inr as"
    by (simp add: runAll_def s1 s2 s3 s4 s5 s6 s7 s8 split: prod.splits)
qed

lemma analyzeTransactions_returns_iff:
  "(\<exists>r. analyzeTransactions getDay txs = Inr r) \<longleftrightarrow> (\<forall>t \<in> set txs. \<not> protoKey (vendor t))"
  using runAll_returns_iff[of getDay txs]
  by (auto simp: analyzeTransactions_def split: sum.splits)

text \<open>
  Claim C2. \<open>analyzeTransactions\<close> does not return on every input: on the single
  payment to a vendor named \<open>constructor\<close> it throws a TypeError. It returns exactly on
  the inputs none of whose vendor names is inherited from \<open>Object.prototype\<close> (the
  lemma before this one), which covers the empty input, a single transaction, identical
  transactions and zero amounts.
\<close>

theorem inherited_vendor_name_throws:
  "analyzeTransactions getDay [payment ''constructor'' 1] = Inl TypeError"
  by (simp add: analyzeTransactions_def runAll_def analyzeBenfordsLaw_def
      detectDuplicatePayments_def groupBy_def detectThresholdAvoidance_def
      APPROVAL_THRESHOLDS_def nearThreshold_def entries_def detectRoundNumbers_def
      roundPatterns_def roundPayments_def detectWeekendPayments_def
      detectSameDayPayments_def detectAddressRedFlags_def payment_def lowerBound_def
      upperBound_def duplicateAnomaly_def isWeekend_def protoKey_def protoKeys_def)

text \<open>
  Claim C4. Three payments of 9,950 to the vendor \<open>Acme LLC\<close> give one anomaly for
  the threshold 10,000, of severity high and amount 29,850. The same three payments to
  a vendor named \<open>constructor\<close> give no anomaly: the check throws a TypeError.
\<close>

theorem avoidance_inherited_vendor_name:
  "detectThresholdAvoidance (replicate 3 (payment ''Acme LLC'' 9950)) 0 =
     Inr ([\<lparr>aId = 0, aType = ThresholdAvoidance, severity = High,
            aVendor = Some ''Acme LLC'', aDepartment = None,
            aAmount = Some 29850, aCount = Some 3,
            details = [ThresholdAvoided 10000, AmountRange 9500 9999,
                       SampleAmounts [9950, 9950, 9950]]\<rparr>], 1)
   \<and> detectThresholdAvoidance (replicate 3 (payment ''constructor'' 9950)) 0 = Inl TypeError"
  by code_simp

text \<open>
  Claim C5. Four payments of 10,000 to a vendor named \<open>constructor\<close>, which are all
  of its payments, give no round-number anomaly: the check throws a TypeError.
\<close>

theorem round_inherited_vendor_name:
  "detectRoundNumbers (replicate 4 (payment ''constructor'' 10000)) 0 = Inl TypeError"
  by code_simp

text \<open>
  Claim C7. A vendor named \<open>constructor\<close> that receives all of the spending is not
  flagged by the concentration check: its total becomes a string, the share is NaN and
  no anomaly is emitted. A vendor named \<open>__proto__\<close> is left out of the totals, so
  a smaller vendor is reported as the top one.
\<close>

theorem concentration_inherited_vendor_name:
  "detectVendorConcentration [payment ''constructor'' 100] 0 = ([], 0)
   \<and> map aVendor (fst (detectVendorConcentration
        [payment ''__proto__'' 1000, payment ''A'' 100] 0)) = [Some ''A'']"
  by code_simp

section \<open>The threshold-avoidance check on ordinary vendor names\<close>

lemma sumAmounts_sum_list: "sumAmounts ts = sum_list (map amount ts)"
  by (simp add: sumAmounts_def foldl_plus_sum)

lemma avoidanceAnomaly_expected:
  "avoidanceAnomaly th (v, w) = (if 3 \<le> length w then [expectedAvoidance th v w] else [])"
  by (simp add: avoidanceAnomaly_def expectedAvoidance_def sumAmounts_sum_list)

lemma avoidanceAnomaly_fields:
  "a \<in> set (avoidanceAnomaly th e) \<Longrightarrow>
     aVendor a = Some (fst e) \<and> aId a = 0 \<and> (ThresholdAvoided x \<in> set (details a) \<longleftrightarrow> x = th)"
  by (cases e) (auto simp: avoidanceAnomaly_def split: if_splits)

lemma vendor_groups:
  assumes "groupBy protoKey vendor xs = Inr g"
  shows "map_of (entries g) v = (if v \<in> vendor ` set xs then Some (vendorPayments xs v) else None)"
    and "distinct (map fst (entries g))"
  using groupBy_result[OF assms] map_of_entries[of g] distinct_entries[of g]
  by (simp_all add: vendorPayments_def)

lemma vendorPayments_empty: "v \<notin> vendor ` set xs \<Longrightarrow> vendorPayments xs v = []"
  by (auto simp: vendorPayments_def filter_empty_conv)

lemma avoidance_candidates:
  assumes g: "groupBy protoKey vendor (nearThreshold th0 txs) = Inr g"
  shows "filter (\<lambda>a. aVendor a = Some v \<and> ThresholdAvoided th \<in> set (details a))
           (concat (map (avoidanceAnomaly th0) (entries g))) =
         (if th = th0 \<and> 3 \<le> length (vendorPayments (nearThreshold th0 txs) v)
          then [expectedAvoidance th0 v (vendorPayments (nearThreshold th0 txs) v)] else [])"
proof -
  let ?c = "concat (map (avoidanceAnomaly th0) (entries g))"
  have byv: "filter (\<lambda>a. aVendor a = Some v) ?c =
      (case map_of (entries g) v of None \<Rightarrow> [] | Some x \<Rightarrow> avoidanceAnomaly th0 (v, x))"
    by (rule filter_concat_keyed[OF vendor_groups(2)[OF g]]) (simp add: avoidanceAnomaly_fields)
  have thr: "\<forall>a \<in> set ?c. ThresholdAvoided th \<in> set (details a) \<longleftrightarrow> th = th0"
    using avoidanceAnomaly_fields by auto
  have "filter (\<lambda>a. aVendor a = Some v \<and> ThresholdAvoided th \<in> set (details a)) ?c =
        filter (\<lambda>a. aVendor a = Some v \<and> th = th0) ?c"
    by (rule filter_cong) (use thr in auto)
  also have "\<dots> = (if th = th0 then filter (\<lambda>a. aVendor a = Some v) ?c else [])"
    by simp
  finally show ?thesis
    using byv vendorPayments_empty[of v "nearThreshold th0 txs"]
    by (auto simp: vendor_groups(1)[OF g] avoidanceAnomaly_expected)
qed

lemma avoidanceLoop_pairs:
  assumes np: "\<forall>t \<in> set txs. \<not> protoKey (vendor t)"
  shows "distinct ths \<Longrightarrow>
     \<exists>as. avoidanceLoop ths txs i = Inr (as, i + length as)
       \<and> map aId as = [i..<i + length as]
       \<and> (\<forall>th v. filter (\<lambda>a. aVendor a = Some v \<and> ThresholdAvoided th \<in> set (details a))
                    (map unnumbered as) =
                  (if th \<in> set ths \<and> 3 \<le> length (vendorPayments (nearThreshold th txs) v)
                   then [expectedAvoidance th v (vendorPayments (nearThreshold th txs) v)]
                   else []))"
proof (induction ths arbitrary: i)
  case Nil
  then show ?case by simp
next
  case (Cons th0 ths)
  have "\<forall>t \<in> set (nearThreshold th0 txs). \<not> protoKey (vendor t)"
    using np by (simp add: nearThreshold_def)
  then obtain g where g: "groupBy protoKey vendor (nearThreshold th0 txs) = Inr g"
    using groupBy_returns[where inh = protoKey and key = vendor] by blast
  let ?c = "concat (map (avoidanceAnomaly th0) (entries g))"
  let ?j = "i + length ?c"
  obtain found where p: "pushAll ?c i = (found, ?j)"
    using pushAll_snd[of ?c i] by (metis prod.collapse)
  then have f: "found = fst (pushAll ?c i)" by simp
  have zero: "\<forall>a \<in> set ?c. aId a = 0" using avoidanceAnomaly_fields by auto
  have un: "map unnumbered found = ?c"
    using pushAll_unnumbered[of ?c i] map_unnumbered_id[OF zero] f by simp
  have fl: "length found = length ?c" and fi: "map aId found = [i..<?j]"
    using f by (simp_all add: pushAll_length pushAll_ids)
  from Cons.prems have d: "distinct ths" and nin: "th0 \<notin> set ths" by simp_all
  from Cons.IH[OF d, of ?j] obtain later where
    l1: "avoidanceLoop ths txs ?j = Inr (later, ?j + length later)"
    and l2: "map aId later = [?j..<?j + length later]"
    and l3: "\<forall>th v. filter (\<lambda>a. aVendor a = Some v \<and> ThresholdAvoided th \<in> set (details a))
                    (map unnumbered later) =
                  (if th \<in> set ths \<and> 3 \<le> length (vendorPayments (nearThreshold th txs) v)
                   then [expectedAvoidance th v (vendorPayments (nearThreshold th txs) v)]
                   else [])"
    by blast
  have run: "avoidanceLoop (th0 # ths) txs i = Inr (found @ later, i + length (found @ later))"
    using g p l1 by (simp add: fl add.assoc)
  have "[i..<i + length ?c + length later] =
        [i..<i + length ?c] @ [i + length ?c..<i + length ?c + length later]"
    by (rule upt_add_eq_append) simp
  then have ids: "map aId (found @ later) = [i..<i + length (found @ later)]"
    using l2 fi by (simp only: map_append length_append fl add.assoc)
  have pairs: "\<forall>th v. filter (\<lambda>a. aVendor a = Some v \<and> ThresholdAvoided th \<in> set (details a))
                    (map unnumbered (found @ later)) =
                  (if th \<in> set (th0 # ths) \<and> 3 \<le> length (vendorPayments (nearThreshold th txs) v)
                   then [expectedAvoidance th v (vendorPayments (nearThreshold th txs) v)]
                   else [])"
  proof (intro allI)
    fix th v
    let ?P = "\<lambda>a. aVendor a = Some v \<and> ThresholdAvoided th \<in> set (details a)"
    have split: "filter ?P (map unnumbered (found @ later)) =
                 filter ?P ?c @ filter ?P (map unnumbered later)"
      by (simp add: un)
    show "filter ?P (map unnumbered (found @ later)) =
                  (if th \<in> set (th0 # ths) \<and> 3 \<le> length (vendorPayments (nearThreshold th txs) v)
                   then [expectedAvoidance th v (vendorPayments (nearThreshold th txs) v)]
                   else [])"
    proof (cases "th = th0")
      case True
      then have "filter ?P (map unnumbered later) = []" using l3 nin by simp
      then show ?thesis unfolding split using True by (simp add: avoidance_candidates[OF g])
    next
      case False
      then have "filter ?P ?c = []" by (simp add: avoidance_candidates[OF g])
      then show ?thesis unfolding split using False l3 by simp
    qed
  qed
  show ?case using run ids pairs by blast
qed

lemma avoidance_pairs:
  assumes "\<forall>t \<in> set txs. \<not> protoKey (vendor t)"
  shows "\<exists>as. detectThresholdAvoidance txs sid = Inr (as, sid + length as)
       \<and> map aId as = [sid..<sid + length as]
       \<and> (\<forall>th v. filter (\<lambda>a. aVendor a = Some v \<and> ThresholdAvoided th \<in> set (details a))
                    (map unnumbered as) =
                  (if th \<in> set APPROVAL_THRESHOLDS
                      \<and> 3 \<le> length (vendorPayments (nearThreshold th txs) v)
                   then [expectedAvoidance th v (vendorPayments (nearThreshold th txs) v)]
                   else []))"
  unfolding detectThresholdAvoidance_def
  by (rule avoidanceLoop_pairs[OF assms]) (simp add: APPROVAL_THRESHOLDS_def)

section \<open>The round-number check on ordinary vendor names\<close>

lemma jsRemainder_zero_iff:
  assumes "0 < d"
  shows "jsRemainder a d = 0 \<longleftrightarrow> (\<exists>m::int. a = of_int m * d)"
proof
  assume "jsRemainder a d = 0"
  then have "a = d * of_int (if 0 \<le> a then \<lfloor>a / d\<rfloor> else \<lceil>a / d\<rceil>)"
    by (simp add: jsRemainder_def)
  then show "\<exists>m::int. a = of_int m * d" by (metis mult.commute)
next
  assume "\<exists>m::int. a = of_int m * d"
  then obtain m :: int where m: "a = of_int m * d" by blast
  then have "a / d = of_int m" using assms by simp
  then show "jsRemainder a d = 0" using m by (simp add: jsRemainder_def)
qed

lemma share_above_half:
  assumes "0 < k" "k \<le> n"
  shows "jsGreater (jsTimes (jsDiv (of_nat k) (of_nat n)) 100) 50 \<longleftrightarrow> n < 2 * k"
proof -
  have n: "0 < (of_nat n :: rat)" using assms by simp
  have "jsGreater (jsTimes (jsDiv (of_nat k) (of_nat n)) 100) 50
        \<longleftrightarrow> (50::rat) < of_nat k / of_nat n * 100"
    using n by (simp add: jsGreater_def jsTimes_def jsDiv_def)
  also have "\<dots> \<longleftrightarrow> (of_nat n :: rat) * 50 < of_nat k * 100"
    using n by (simp add: pos_less_divide_eq mult.commute)
  also have "\<dots> \<longleftrightarrow> (of_nat (n * 50) :: rat) < of_nat (k * 100)" by simp
  also have "\<dots> \<longleftrightarrow> n * 50 < k * 100" by (rule of_nat_less_iff)
  also have "\<dots> \<longleftrightarrow> n < 2 * k" by auto
  finally show ?thesis .
qed

lemma roundAnomaly_fields:
  "a \<in> set (roundAnomaly p txs e) \<Longrightarrow>
     aVendor a = Some (fst e) \<and> aId a = 0 \<and> (PatternName x \<in> set (details a) \<longleftrightarrow> x = name p)"
  by (cases e) (auto simp: roundAnomaly_def Let_def split: if_splits)

lemma vendorPayments_sub:
  "length (vendorPayments (roundPayments p txs) v) \<le> length (vendorPayments txs v)"
proof -
  have "vendorPayments (roundPayments p txs) v =
        filter (\<lambda>t. minAmount p \<le> amount t \<and> jsRemainder (amount t) (divisor p) = 0)
          (vendorPayments txs v)"
    by (auto simp: vendorPayments_def roundPayments_def intro: filter_cong)
  then show ?thesis by simp
qed

lemma roundAnomaly_expected:
  "roundAnomaly p txs (v, vendorPayments (roundPayments p txs) v) =
     (if 4 \<le> length (vendorPayments (roundPayments p txs) v)
         \<and> length (vendorPayments txs v) < 2 * length (vendorPayments (roundPayments p txs) v)
      then [expectedRound p v (vendorPayments (roundPayments p txs) v) (length (vendorPayments txs v))]
      else [])"
proof (cases "4 \<le> length (vendorPayments (roundPayments p txs) v)")
  case True
  then have "0 < length (vendorPayments (roundPayments p txs) v)" by linarith
  from share_above_half[OF this vendorPayments_sub[of p txs v]] True
  show ?thesis
    by (simp add: roundAnomaly_def Let_def expectedRound_def sumAmounts_sum_list
        flip: vendorPayments_def)
next
  case False
  then show ?thesis by (simp add: roundAnomaly_def Let_def)
qed

lemma round_candidates:
  assumes g: "groupBy protoKey vendor (roundPayments p0 txs) = Inr g"
  shows "filter (\<lambda>a. aVendor a = Some v \<and> PatternName x \<in> set (details a))
           (concat (map (roundAnomaly p0 txs) (entries g))) =
         (if x = name p0 \<and> 4 \<le> length (vendorPayments (roundPayments p0 txs) v)
             \<and> length (vendorPayments txs v) < 2 * length (vendorPayments (roundPayments p0 txs) v)
          then [expectedRound p0 v (vendorPayments (roundPayments p0 txs) v)
                  (length (vendorPayments txs v))]
          else [])"
proof -
  let ?c = "concat (map (roundAnomaly p0 txs) (entries g))"
  have byv: "filter (\<lambda>a. aVendor a = Some v) ?c =
      (case map_of (entries g) v of None \<Rightarrow> [] | Some w \<Rightarrow> roundAnomaly p0 txs (v, w))"
    by (rule filter_concat_keyed[OF vendor_groups(2)[OF g]]) (simp add: roundAnomaly_fields)
  have nm: "\<forall>a \<in> set ?c. PatternName x \<in> set (details a) \<longleftrightarrow> x = name p0"
    using roundAnomaly_fields by auto
  have "filter (\<lambda>a. aVendor a = Some v \<and> PatternName x \<in> set (details a)) ?c =
        filter (\<lambda>a. aVendor a = Some v \<and> x = name p0) ?c"
    by (rule filter_cong) (use nm in auto)
  also have "\<dots> = (if x = name p0 then filter (\<lambda>a. aVendor a = Some v) ?c else [])"
    by simp
  finally have 1: "filter (\<lambda>a. aVendor a = Some v \<and> PatternName x \<in> set (details a)) ?c =
      (if x = name p0 then filter (\<lambda>a. aVendor a = Some v) ?c else [])" .
  show ?thesis
  proof (cases "v \<in> vendor ` set (roundPayments p0 txs)")
    case True
    then have "filter (\<lambda>a. aVendor a = Some v) ?c =
        roundAnomaly p0 txs (v, vendorPayments (roundPayments p0 txs) v)"
      unfolding byv by (simp add: vendor_groups(1)[OF g])
    then show ?thesis unfolding 1 by (simp add: roundAnomaly_expected)
  next
    case False
    then have "vendorPayments (roundPayments p0 txs) v = []" by (rule vendorPayments_empty)
    then show ?thesis unfolding 1 byv using False
      by (simp add: vendor_groups(1)[OF g])
  qed
qed

lemma roundLoop_pairs:
  assumes np: "\<forall>t \<in> set txs. \<not> protoKey (vendor t)"
  shows "distinct (map name ps) \<Longrightarrow>
     \<exists>as. roundLoop ps txs i = Inr (as, i + length as)
       \<and> map aId as = [i..<i + length as]
       \<and> (\<forall>x v. filter (\<lambda>a. aVendor a = Some v \<and> PatternName x \<in> set (details a))
                    (map unnumbered as) =
            concat (map (\<lambda>p. if x = name p \<and> 4 \<le> length (vendorPayments (roundPayments p txs) v)
                   \<and> length (vendorPayments txs v) < 2 * length (vendorPayments (roundPayments p txs) v)
                   then [expectedRound p v (vendorPayments (roundPayments p txs) v)
                           (length (vendorPayments txs v))]
                   else []) ps))"
proof (induction ps arbitrary: i)
  case Nil
  then show ?case by simp
next
  case (Cons p0 ps)
  have "\<forall>t \<in> set (roundPayments p0 txs). \<not> protoKey (vendor t)"
    using np by (simp add: roundPayments_def)
  then obtain g where g: "groupBy protoKey vendor (roundPayments p0 txs) = Inr g"
    using groupBy_returns[where inh = protoKey and key = vendor] by blast
  let ?c = "concat (map (roundAnomaly p0 txs) (entries g))"
  let ?j = "i + length ?c"
  obtain found where p: "pushAll ?c i = (found, ?j)"
    using pushAll_snd[of ?c i] by (metis prod.collapse)
  then have f: "found = fst (pushAll ?c i)" by simp
  have zero: "\<forall>a \<in> set ?c. aId a = 0" using roundAnomaly_fields by auto
  have un: "map unnumbered found = ?c"
    using pushAll_unnumbered[of ?c i] map_unnumbered_id[OF zero] f by simp
  have fl: "length found = length ?c" and fi: "map aId found = [i..<?j]"
    using f by (simp_all add: pushAll_length pushAll_ids)
  from Cons.prems have d: "distinct (map name ps)" by simp
  from Cons.IH[OF d, of ?j] obtain later where
    l1: "roundLoop ps txs ?j = Inr (later, ?j + length later)"
    and l2: "map aId later = [?j..<?j + length later]"
    and l3: "\<forall>x v. filter (\<lambda>a. aVendor a = Some v \<and> PatternName x \<in> set (details a))
                    (map unnumbered later) =
            concat (map (\<lambda>p. if x = name p \<and> 4 \<le> length (vendorPayments (roundPayments p txs) v)
                   \<and> length (vendorPayments txs v) < 2 * length (vendorPayments (roundPayments p txs) v)
                   then [expectedRound p v (vendorPayments (roundPayments p txs) v)
                           (length (vendorPayments txs v))]
                   else []) ps)"
    by blast
  have run: "roundLoop (p0 # ps) txs i = Inr (found @ later, i + length (found @ later))"
    using g p l1 by (simp add: fl add.assoc)
  have "[i..<i + length ?c + length later] =
        [i..<i + length ?c] @ [i + length ?c..<i + length ?c + length later]"
    by (rule upt_add_eq_append) simp
  then have ids: "map aId (found @ later) = [i..<i + length (found @ later)]"
    using l2 fi by (simp only: map_append length_append fl add.assoc)
  have pairs: "\<forall>x v. filter (\<lambda>a. aVendor a = Some v \<and> PatternName x \<in> set (details a))
                    (map unnumbered (found @ later)) =
            concat (map (\<lambda>p. if x = name p \<and> 4 \<le> length (vendorPayments (roundPayments p txs) v)
                   \<and> length (vendorPayments txs v) < 2 * length (vendorPayments (roundPayments p txs) v)
                   then [expectedRound p v (vendorPayments (roundPayments p txs) v)
                           (length (vendorPayments txs v))]
                   else []) (p0 # ps))"
    using l3 by (simp add: un round_candidates[OF g])
  show ?case using run ids pairs by blast
qed

lemma round_pairs:
  assumes "\<forall>t \<in> set txs. \<not> protoKey (vendor t)"
  shows "\<exists>as. detectRoundNumbers txs sid = Inr (as, sid + length as)
       \<and> map aId as = [sid..<sid + length as]
       \<and> (\<forall>p \<in> set roundPatterns. \<forall>v.
            filter (\<lambda>a. aVendor a = Some v \<and> PatternName (name p) \<in> set (details a))
              (map unnumbered as) =
            (if 4 \<le> length (vendorPayments (roundPayments p txs) v)
                \<and> length (vendorPayments txs v) < 2 * length (vendorPayments (roundPayments p txs) v)
             then [expectedRound p v (vendorPayments (roundPayments p txs) v)
                     (length (vendorPayments txs v))]
             else []))"
proof -
  have d: "distinct (map name roundPatterns)" by (simp add: roundPatterns_def)
  from roundLoop_pairs[OF assms d, of sid] obtain as where
    r: "roundLoop roundPatterns txs sid = Inr (as, sid + length as)"
    and i: "map aId as = [sid..<sid + length as]"
    and f: "\<forall>x v. filter (\<lambda>a. aVendor a = Some v \<and> PatternName x \<in> set (details a))
                    (map unnumbered as) =
            concat (map (\<lambda>p. if x = name p \<and> 4 \<le> length (vendorPayments (roundPayments p txs) v)
                   \<and> length (vendorPayments txs v) < 2 * length (vendorPayments (roundPayments p txs) v)
                   then [expectedRound p v (vendorPayments (roundPayments p txs) v)
                           (length (vendorPayments txs v))]
                   else []) roundPatterns)"
    by blast
  have "\<forall>p \<in> set roundPatterns. \<forall>v.
            filter (\<lambda>a. aVendor a = Some v \<and> PatternName (name p) \<in> set (details a))
              (map unnumbered as) =
            (if 4 \<le> length (vendorPayments (roundPayments p txs) v)
                \<and> length (vendorPayments txs v) < 2 * length (vendorPayments (roundPayments p txs) v)
             then [expectedRound p v (vendorPayments (roundPayments p txs) v)
                     (length (vendorPayments txs v))]
             else [])"
    by (simp add: roundPatterns_def f[rule_format])
  then show ?thesis using r i unfolding detectRoundNumbers_def by blast
qed

section \<open>The vendor-concentration check on ordinary vendor names\<close>

lemma setOwn_same: "map_of obj k = Some v \<Longrightarrow> setOwn k v obj = obj"
  by (induction obj) (auto split: if_splits)

lemma proto_is_inherited: "protoKey ''__proto__''"
  by (simp add: protoKey_def protoKeys_def)

lemma vendorTotals_accum:
  "\<forall>t \<in> set ts. \<not> protoKey (vendor t) \<Longrightarrow>
   accum protoKey vendor (Num 0) stepNum ts obj = Inr (foldl addTotal obj ts)"
proof (induction ts arbitrary: obj)
  case Nil
  then show ?case by simp
next
  case (Cons t ts)
  then have np: "\<not> protoKey (vendor t)" and rest: "\<forall>t \<in> set ts. \<not> protoKey (vendor t)" by simp_all
  then have nq: "vendor t \<noteq> ''__proto__''" using proto_is_inherited by auto
  show ?case
  proof (cases "map_of obj (vendor t)")
    case None
    then show ?thesis using np nq Cons.IH[OF rest] by (simp add: addTotal_def stepNum_def)
  next
    case (Some v)
    then show ?thesis using Cons.IH[OF rest] setOwn_same[OF Some]
      by (cases v) (simp_all add: addTotal_def stepNum_def)
  qed
qed

lemma foldl_stepNum: "foldl stepNum (Num z) ts = Num (z + sum_list (map amount ts))"
  by (induction ts arbitrary: z) (simp_all add: stepNum_def add.assoc)

lemma vendorTotals_result:
  assumes np: "\<forall>t \<in> set txs. \<not> protoKey (vendor t)"
  shows "distinct (map fst (vendorTotals txs))"
    and "fst ` set (vendorTotals txs) = vendor ` set txs"
    and "\<forall>p \<in> set (vendorTotals txs). snd p = Num (vendorSum txs (fst p))"
proof -
  have a: "accum protoKey vendor (Num 0) stepNum txs [] = Inr (vendorTotals txs)"
    using vendorTotals_accum[OF np, of "[]"] by (simp add: vendorTotals_def)
  show d: "distinct (map fst (vendorTotals txs))" using accum_result(1)[OF a] by simp
  show k: "fst ` set (vendorTotals txs) = vendor ` set txs" using accum_result(2)[OF a] by simp
  show "\<forall>p \<in> set (vendorTotals txs). snd p = Num (vendorSum txs (fst p))"
  proof
    fix p assume p: "p \<in> set (vendorTotals txs)"
    then have "fst p \<in> vendor ` set txs" using k by force
    then have ne: "filter (\<lambda>t. vendor t = fst p) txs \<noteq> []" by (auto simp: filter_empty_conv)
    have "map_of (vendorTotals txs) (fst p) = Some (snd p)" using p d by simp
    then show "snd p = Num (vendorSum txs (fst p))"
      using accum_result(3)[OF a, of "fst p"] ne
      by (simp add: foldl_stepNum vendorSum_def vendorPayments_def)
  qed
qed

lemma numeric_all_num:
  "\<forall>p \<in> set es. snd p = Num (f (fst p)) \<Longrightarrow> numeric es = Some (map (\<lambda>p. (fst p, f (fst p))) es)"
proof (induction es)
  case Nil
  then show ?case by simp
next
  case (Cons e es)
  then show ?case by (cases e) simp
qed

lemma sum_vendorSum:
  assumes "finite A" "vendor ` set txs \<subseteq> A"
  shows "(\<Sum>v \<in> A. vendorSum txs v) = grandTotal txs"
  using assms(2)
proof (induction txs)
  case Nil
  then show ?case by (simp add: vendorSum_def vendorPayments_def grandTotal_def)
next
  case (Cons t txs)
  have step: "vendorSum (t # txs) v = (if v = vendor t then amount t else 0) + vendorSum txs v" for v
    by (simp add: vendorSum_def vendorPayments_def)
  have "(\<Sum>v \<in> A. vendorSum (t # txs) v) =
        (\<Sum>v \<in> A. if v = vendor t then amount t else 0) + (\<Sum>v \<in> A. vendorSum txs v)"
    by (simp add: step sum.distrib)
  also have "(\<Sum>v \<in> A. if v = vendor t then amount t else 0) = amount t"
    using assms(1) Cons.prems by (simp add: sum.delta)
  finally show ?case using Cons by (simp add: grandTotal_def)
qed

lemma hd_sort_key:
  assumes "xs \<noteq> []"
  shows "hd (sort_key f xs) \<in> set xs" and "\<forall>y \<in> set xs. f (hd (sort_key f xs)) \<le> f y"
proof -
  have ne: "sort_key f xs \<noteq> []" using assms by (metis length_0_conv length_sort)
  then obtain h r where hr: "sort_key f xs = h # r" by (cases "sort_key f xs") auto
  have "set (h # r) = set xs" using hr by (metis set_sort)
  moreover have "sorted (map f (h # r))" using hr by (metis sorted_sort_key)
  ultimately show "hd (sort_key f xs) \<in> set xs" and "\<forall>y \<in> set xs. f (hd (sort_key f xs)) \<le> f y"
    using hr by auto
qed

lemma vendorSum_bounds:
  assumes "\<forall>t \<in> set txs. 0 \<le> amount t"
  shows "0 \<le> vendorSum txs v" and "vendorSum txs v \<le> grandTotal txs"
  using assms
proof (induction txs)
  case Nil
  { case 1 show ?case by (simp add: vendorSum_def vendorPayments_def) }
  { case 2 show ?case by (simp add: vendorSum_def vendorPayments_def grandTotal_def) }
next
  case (Cons t txs)
  { case 1 then show ?case using Cons.IH(1) by (simp add: vendorSum_def vendorPayments_def) }
  { case 2 then show ?case using Cons.IH(2) by (simp add: vendorSum_def vendorPayments_def grandTotal_def) }
qed

lemma share_exceeds:
  assumes "0 \<le> a" "a \<le> T" "0 < c"
  shows "jsGreater (jsTimes (jsDiv a T) 100) c \<longleftrightarrow> c * T < 100 * a"
proof (cases "T = 0")
  case True
  then have "a = 0" using assms by simp
  then show ?thesis using True by (simp add: jsGreater_def jsTimes_def jsDiv_def)
next
  case False
  then have T: "0 < T" using assms by simp
  have "jsGreater (jsTimes (jsDiv a T) 100) c \<longleftrightarrow> c < a / T * 100"
    using False by (simp add: jsGreater_def jsTimes_def jsDiv_def)
  also have "\<dots> \<longleftrightarrow> c * T < 100 * a"
    using T by (simp add: pos_less_divide_eq mult.commute)
  finally show ?thesis .
qed

lemma concentration_at_most_one: "length (fst (detectVendorConcentration txs sid)) \<le> 1"
  by (simp add: detectVendorConcentration_def split: option.splits list.splits)

lemma foldl_plus_sum_list: "foldl (+) z xs = z + sum_list xs" for z :: rat
  by (induction xs arbitrary: z) auto

lemma concentration_general:
  assumes np: "\<forall>t \<in> set txs. \<not> protoKey (vendor t)"
    and nn: "\<forall>t \<in> set txs. 0 \<le> amount t"
  shows "(txs \<noteq> [] \<and> 15 * grandTotal txs < 100 * topTotal txs \<longrightarrow>
            (\<exists>a v. detectVendorConcentration txs sid = ([a], Suc sid)
               \<and> aId a = sid \<and> aType a = VendorConcentration
               \<and> aVendor a = Some v \<and> v \<in> vendor ` set txs
               \<and> vendorSum txs v = topTotal txs
               \<and> aAmount a = Some (topTotal txs)
               \<and> severity a = (if 25 * grandTotal txs < 100 * topTotal txs then High else Medium)))
       \<and> (\<not> (txs \<noteq> [] \<and> 15 * grandTotal txs < 100 * topTotal txs) \<longrightarrow>
            detectVendorConcentration txs sid = ([], sid))"
proof (cases "txs = []")
  case True
  then show ?thesis
    by (simp add: detectVendorConcentration_def vendorTotals_def entries_def sortedVendors_def)
next
  case False
  let ?E = "entries (vendorTotals txs)"
  let ?es = "map (\<lambda>p. (fst p, vendorSum txs (fst p))) ?E"
  have dE: "distinct (map fst ?E)" using distinct_entries[OF vendorTotals_result(1)[OF np]] .
  have kE: "fst ` set ?E = vendor ` set txs"
    using vendorTotals_result(2)[OF np] by (simp add: set_entries)
  have num: "numeric ?E = Some ?es"
    by (rule numeric_all_num) (use vendorTotals_result(3)[OF np] in \<open>simp add: set_entries\<close>)
  have keys: "map fst ?es = map fst ?E" by simp
  have snds: "map snd ?es = map (vendorSum txs) (map fst ?E)" by simp
  have tot: "foldl (+) 0 (map snd ?es) = grandTotal txs"
  proof -
    have "sum_list (map (vendorSum txs) (map fst ?E)) = (\<Sum>v \<in> set (map fst ?E). vendorSum txs v)"
      using dE by (rule sum_list_distinct_conv_sum_set)
    also have "\<dots> = grandTotal txs"
      by (rule sum_vendorSum) (use kE in auto)
    finally show ?thesis by (simp only: snds foldl_plus_sum_list)
  qed
  have "vendor ` set txs \<noteq> {}" using False by simp
  then have "set ?E \<noteq> {}" using kE by (metis image_is_empty)
  then have ne: "?es \<noteq> []" by simp
  define h where "h = hd (sort_key (\<lambda>p. - snd p) ?es)"
  have hin: "h \<in> set ?es" and hmax: "\<forall>y \<in> set ?es. - snd h \<le> - snd y"
    unfolding h_def using hd_sort_key[OF ne, of "\<lambda>p. - snd p"] by blast+
  have sne: "sort_key (\<lambda>p. - snd p) ?es \<noteq> []"
    using ne by (metis length_0_conv length_sort)
  define r where "r = tl (sort_key (\<lambda>p. - snd p) ?es)"
  have srt: "sort_key (\<lambda>p. - snd p) ?es = h # r"
    unfolding h_def r_def using sne by simp
  have es_set: "set ?es = (\<lambda>p. (fst p, vendorSum txs (fst p))) ` set ?E" by simp
  obtain p where p: "p \<in> set ?E" "h = (fst p, vendorSum txs (fst p))"
    using hin unfolding es_set by blast
  define v where "v = fst p"
  have hv: "h = (v, vendorSum txs v)" using p(2) by (simp add: v_def)
  have "fst p \<in> fst ` set ?E" using p(1) by (rule imageI)
  then have vin: "v \<in> vendor ` set txs" unfolding v_def kE .
  have mx: "vendorSum txs v = topTotal txs"
  proof -
    have le: "\<And>y. y \<in> vendorSum txs ` vendor ` set txs \<Longrightarrow> y \<le> vendorSum txs v"
    proof -
      fix y assume "y \<in> vendorSum txs ` vendor ` set txs"
      then obtain u where u: "u \<in> vendor ` set txs" "y = vendorSum txs u" by blast
      from u(1) have "u \<in> fst ` set ?E" unfolding kE .
      then obtain q where q: "q \<in> set ?E" "fst q = u" by (auto simp: image_iff)
      then have "(fst q, vendorSum txs (fst q)) \<in> (\<lambda>p. (fst p, vendorSum txs (fst p))) ` set ?E"
        by (intro imageI)
      then have "(u, vendorSum txs u) \<in> set ?es" unfolding es_set using q(2) by simp
      then have "- snd h \<le> - snd (u, vendorSum txs u)" using hmax by blast
      then show "y \<le> vendorSum txs v" using hv u(2) by simp
    qed
    have mem: "vendorSum txs v \<in> vendorSum txs ` vendor ` set txs" using vin by blast
    have fin: "finite (vendorSum txs ` vendor ` set txs)" by simp
    show ?thesis unfolding topTotal_def using Max_eqI[OF fin le mem] by simp
  qed
  have sv: "sortedVendors ?es =
      (v, topTotal txs, jsTimes (jsDiv (topTotal txs) (grandTotal txs)) 100)
      # map (\<lambda>p. (fst p, snd p, jsTimes (jsDiv (snd p) (grandTotal txs)) 100)) r"
    unfolding sortedVendors_def Let_def tot srt by (simp add: hv mx)
  have b: "0 \<le> topTotal txs" "topTotal txs \<le> grandTotal txs"
    using vendorSum_bounds[OF nn, of v] mx by simp_all
  have g15: "jsGreater (jsTimes (jsDiv (topTotal txs) (grandTotal txs)) 100) 15
             \<longleftrightarrow> 15 * grandTotal txs < 100 * topTotal txs"
    by (rule share_exceeds[OF b]) simp
  have g25: "jsGreater (jsTimes (jsDiv (topTotal txs) (grandTotal txs)) 100) 25
             \<longleftrightarrow> 25 * grandTotal txs < 100 * topTotal txs"
    by (rule share_exceeds[OF b]) simp
  show ?thesis
  proof (cases "15 * grandTotal txs < 100 * topTotal txs")
    case True
    have "detectVendorConcentration txs sid =
        ([\<lparr>aId = sid, aType = VendorConcentration,
           severity = (if 25 * grandTotal txs < 100 * topTotal txs then High else Medium),
           aVendor = Some v, aDepartment = None,
           aAmount = Some (topTotal txs), aCount = None,
           details = [TotalSpending (grandTotal txs), TopVendors (take 5 (sortedVendors ?es))]\<rparr>],
         Suc sid)"
      unfolding detectVendorConcentration_def num option.case tot sv list.case
      using True g15 g25 by simp
    then show ?thesis using True False vin mx by simp
  next
    case no: False
    have "detectVendorConcentration txs sid = ([], sid)"
      unfolding detectVendorConcentration_def num option.case tot sv list.case
      using no g15 by simp
    then show ?thesis using no by simp
  qed
qed

text \<open>\<open>leadingDigit\<close> is the first decimal digit: between 1 and 9, with the number
  between that digit and the next one times a power of ten.\<close>

lemma leadingDigit_spec:
  "0 < n \<Longrightarrow> 1 \<le> leadingDigit n \<and> leadingDigit n \<le> 9
     \<and> (\<exists>k. leadingDigit n * 10 ^ k \<le> n \<and> n < (leadingDigit n + 1) * 10 ^ k)"
proof (induction n rule: leadingDigit.induct)
  case (1 n)
  show ?case
  proof (cases "n < 10")
    case True
    then have d: "leadingDigit n = n" by (simp add: leadingDigit.simps)
    have "1 \<le> n" "n \<le> 9" "n * 10 ^ 0 \<le> n" "n < (n + 1) * 10 ^ 0"
      using True "1.prems" by simp_all
    then show ?thesis unfolding d by blast
  next
    case False
    then have d: "leadingDigit n = leadingDigit (n div 10)" by (subst leadingDigit.simps) simp
    have pos: "0 < n div 10" using False by simp
    from "1.IH"[OF False pos] obtain k where
      r: "1 \<le> leadingDigit (n div 10)" "leadingDigit (n div 10) \<le> 9"
      and k: "leadingDigit (n div 10) * 10 ^ k \<le> n div 10"
             "n div 10 < (leadingDigit (n div 10) + 1) * 10 ^ k"
      by blast
    define X where "X = leadingDigit (n div 10) * 10 ^ k"
    define M where "M = (10::nat) ^ k"
    have k': "X \<le> n div 10" "n div 10 < X + M" using k by (simp_all add: X_def M_def algebra_simps)
    have "10 * X \<le> n" "n < 10 * X + 10 * M" using k' by auto
    then have "leadingDigit (n div 10) * 10 ^ Suc k \<le> n \<and> n < (leadingDigit (n div 10) + 1) * 10 ^ Suc k"
      by (simp add: X_def M_def algebra_simps)
    then show ?thesis unfolding d using r by blast
  qed
qed

end
